theory Spec2Isabelle
  imports Complex_Main "HOL-Library.Log_Nat"
begin

section \<open>The data of the bisect tool\<close>

text \<open>
  The repository holds two variants of one command line tool. The ternary variant
  (pass / fail / ignore, the source file with \<open>TestResult\<close>) is the Engine; the binary
  variant (pass / fail, \<open>main.ts\<close>) is the older one. Both read a list of items, and
  search it by halving an index range \<open>[left, right]\<close>. For each index they test they
  run the configured commands and then ask the person at the terminal for the outcome.
\<close>

datatype TestResult = PASS | FAIL | IGNORE

record BisectOptions =
  testCommand :: string
  itemsFile :: string
  nextStateCommand :: "string option"

text \<open>
  The person at the prompt (\<open>confirmResult\<close>, which returns only once an accepted answer
  has been typed). The answer may depend on the item shown and on what was asked before,
  so the answers are a function of the number of answers already given and of the index
  the question is about. An answer that depends on the index alone ignores its first
  argument; a fixed sequence of answers ignores its second.
\<close>

type_synonym answers = "nat \<Rightarrow> int \<Rightarrow> TestResult"

text \<open>
  The commands are run by the library dax, which is not part of the repository.
  \<open>noThrow\<close> turns a non-zero exit code into a value, and that only decides whether a
  warning is printed. A line that dax cannot parse still makes it throw; \<open>main\<close> catches
  the exception, prints it and exits with status 1. Which lines dax can parse is a
  parameter of the model, \<open>parses\<close>.
\<close>

type_synonym shell = "string \<Rightarrow> bool"

text \<open>
  How a run ends without a report: \<open>bisect\<close> found no item, or running the command
  line given threw. Both exit with status 1.
\<close>

datatype error = NoItems | CommandFailed string

text \<open>
  The variables of \<open>bisect\<close>. \<open>lastGoodIndex\<close> and \<open>firstBadIndex\<close> are \<open>-1\<close> while unset,
  as in the source. Two fields are not variables of the source: \<open>tested\<close> lists the
  indices the person was asked about, in order, and \<open>executed\<close> lists the command lines
  that were run, in order.
\<close>

record state =
  left :: int
  right :: int
  lastGoodIndex :: int
  firstBadIndex :: int
  ignoredItems :: "int list"
  tested :: "int list"
  executed :: "string list"

section \<open>Running a command\<close>

text \<open>
  \<open>command.replaceAll("@i", item)\<close>. The replacement is a string, so JavaScript expands
  the patterns \<open>$$\<close>, \<open>$&\<close>, \<open>$`\<close> and \<open>$'\<close> in it (\<open>GetSubstitution\<close>, with no captures:
  every other \<open>$\<close> stands for itself). \<open>before\<close> is the part of the command to the left
  of the match and \<open>after\<close> the part to its right.
\<close>

fun getSubstitution :: "string \<Rightarrow> string \<Rightarrow> string \<Rightarrow> string \<Rightarrow> string" where
  "getSubstitution matched before after [] = []"
| "getSubstitution matched before after [c] = [c]"
| "getSubstitution matched before after (c # d # r) =
     (if c = CHR ''$'' \<and> d = CHR ''$'' then CHR ''$'' # getSubstitution matched before after r
      else if c = CHR ''$'' \<and> d = CHR ''&'' then matched @ getSubstitution matched before after r
      else if c = CHR ''$'' \<and> d = CHR 0x60 then before @ getSubstitution matched before after r
      else if c = CHR ''$'' \<and> d = CHR 0x27 then after @ getSubstitution matched before after r
      else c # getSubstitution matched before after (d # r))"

text \<open>
  \<open>replaceAll item before rest\<close> scans \<open>rest\<close> from the left, \<open>before\<close> being the part of
  the command already scanned; matches do not overlap.
\<close>

fun replaceAll :: "string \<Rightarrow> string \<Rightarrow> string \<Rightarrow> string" where
  "replaceAll item before [] = []"
| "replaceAll item before [c] = [c]"
| "replaceAll item before (c # d # r) =
     (if c = CHR ''@'' \<and> d = CHR ''i''
      then getSubstitution ''@i'' before r item @ replaceAll item (before @ ''@i'') r
      else c # replaceAll item (before @ [c]) (d # r))"

text \<open>
  \<open>finalCommand\<close> in \<open>runCommand\<close> of the ternary variant. The item is optional and the
  substitution happens only for an item that is present and not the empty string
  (\<open>item ? ... : command\<close>).
\<close>

definition finalCommand :: "string \<Rightarrow> string option \<Rightarrow> string" where
  "finalCommand command item =
     (case item of
        Some i \<Rightarrow> if i \<noteq> [] then replaceAll i [] command else command
      | None \<Rightarrow> command)"

text \<open>
  \<open>runCommand\<close>, as a step on the list of the lines run so far: the line is added to
  the list, or the exception is thrown for a line that dax cannot parse, with the list as
  it is.
\<close>

definition runCommand ::
  "shell \<Rightarrow> string \<Rightarrow> string option \<Rightarrow> string list \<Rightarrow> (error \<times> string list) + string list" where
  "runCommand parses command item lines =
     (if parses (finalCommand command item) then Inr (lines @ [finalCommand command item])
      else Inl (CommandFailed (finalCommand command item), lines))"

text \<open>\<open>items[i]\<close>: \<open>undefined\<close> out of range.\<close>

definition item_at :: "string list \<Rightarrow> int \<Rightarrow> string option" where
  "item_at items i = (if 0 \<le> i \<and> i < int (length items) then Some (items ! nat i) else None)"

text \<open>
  The commands run for one tested item (lines 131 to 137 of the ternary variant): the
  next-state command, if one is configured, with the item; then the test command, with
  no item. An exception ends the step at once.
\<close>

definition run_commands ::
  "shell \<Rightarrow> BisectOptions \<Rightarrow> string option \<Rightarrow> string list \<Rightarrow> (error \<times> string list) + string list" where
  "run_commands parses options currentItem lines =
     (case (case nextStateCommand options of
              Some c \<Rightarrow> if c \<noteq> [] then runCommand parses c currentItem lines else Inr lines
            | None \<Rightarrow> Inr lines) of
        Inl x \<Rightarrow> Inl x
      | Inr lines1 \<Rightarrow> runCommand parses (testCommand options) None lines1)"

section \<open>The search loop of the ternary variant\<close>

text \<open>
  The inner loop, from \<open>currentIndex\<close>: it returns the state and the value of
  \<open>currentIndex\<close> when the loop is left, by \<open>break\<close> or because \<open>currentIndex > right\<close>;
  or the exception that a command threw, before the person was asked, with the state at
  that moment.
\<close>

function inner ::
  "shell \<Rightarrow> BisectOptions \<Rightarrow> string list \<Rightarrow> answers \<Rightarrow> state \<Rightarrow> int
     \<Rightarrow> (error \<times> state) + state \<times> int" where
  "inner parses options items ask s currentIndex =
     (if currentIndex \<le> right s then
        (case run_commands parses options (item_at items currentIndex) (executed s) of
           Inl (e, lines) \<Rightarrow> Inl (e, s\<lparr>executed := lines\<rparr>)
         | Inr lines \<Rightarrow>
             let result = ask (length (tested s)) currentIndex;
                 s1 = s\<lparr>tested := tested s @ [currentIndex], executed := lines\<rparr>
             in if result = PASS then
                  Inr (s1\<lparr>lastGoodIndex := currentIndex, left := currentIndex + 1\<rparr>, currentIndex)
                else if result = FAIL then
                  Inr (s1\<lparr>firstBadIndex := currentIndex, right := currentIndex - 1\<rparr>, currentIndex)
                else
                  inner parses options items ask
                    (s1\<lparr>ignoredItems := ignoredItems s1 @ [currentIndex]\<rparr>) (currentIndex + 1))
      else Inr (s, currentIndex))"
  by pat_completeness auto
termination
  by (relation "measure (\<lambda>(parses, options, items, ask, s, currentIndex).
                  nat (right s + 1 - currentIndex))")
     auto

text \<open>
  One iteration of the outer loop, entered with \<open>left \<le> right\<close>. An exception in the
  inner loop leaves the iteration, and the run, at once.
\<close>

definition outer_body ::
  "shell \<Rightarrow> BisectOptions \<Rightarrow> string list \<Rightarrow> answers \<Rightarrow> state \<Rightarrow> (error \<times> state) + state" where
  "outer_body parses options items ask s =
     (let mid = (left s + right s) div 2 in
      case inner parses options items ask s mid of
        Inl x \<Rightarrow> Inl x
      | Inr (s', currentIndex) \<Rightarrow>
          Inr (if currentIndex > right s' then s'\<lparr>right := mid - 1\<rparr> else s'))"

text \<open>The defining equation of \<open>inner\<close> is used through the lemmas below.\<close>

declare inner.simps [simp del]

lemma inner_stop: "right s < c \<Longrightarrow> inner parses options items ask s c = Inr (s, c)"
  by (simp add: inner.simps)

lemma inner_abort:
  "c \<le> right s \<Longrightarrow>
   run_commands parses options (item_at items c) (executed s) = Inl (e, lines) \<Longrightarrow>
   inner parses options items ask s c = Inl (e, s\<lparr>executed := lines\<rparr>)"
  by (simp add: inner.simps)

lemma inner_PASS:
  "c \<le> right s \<Longrightarrow>
   run_commands parses options (item_at items c) (executed s) = Inr lines \<Longrightarrow>
   ask (length (tested s)) c = PASS \<Longrightarrow>
   inner parses options items ask s c =
     Inr (s\<lparr>tested := tested s @ [c], executed := lines,
            lastGoodIndex := c, left := c + 1\<rparr>, c)"
  by (simp add: inner.simps)

lemma inner_FAIL:
  "c \<le> right s \<Longrightarrow>
   run_commands parses options (item_at items c) (executed s) = Inr lines \<Longrightarrow>
   ask (length (tested s)) c = FAIL \<Longrightarrow>
   inner parses options items ask s c =
     Inr (s\<lparr>tested := tested s @ [c], executed := lines,
            firstBadIndex := c, right := c - 1\<rparr>, c)"
  by (simp add: inner.simps)

lemma inner_IGNORE:
  "c \<le> right s \<Longrightarrow>
   run_commands parses options (item_at items c) (executed s) = Inr lines \<Longrightarrow>
   ask (length (tested s)) c = IGNORE \<Longrightarrow>
   inner parses options items ask s c =
     inner parses options items ask
       (s\<lparr>tested := tested s @ [c], executed := lines,
          ignoredItems := ignoredItems s @ [c]\<rparr>) (c + 1)"
  by (simp add: inner.simps[of _ _ _ _ s c])

text \<open>
  What the inner loop has done when it is left at \<open>c'\<close>: the answers up to \<open>c'\<close> were
  \<open>IGNORE\<close>, and a \<open>PASS\<close> at \<open>c'\<close>, a \<open>FAIL\<close> at \<open>c'\<close> or \<open>c' > right\<close> ended it.
\<close>

lemma inner_shape:
  "inner parses options items ask s c = Inr (s', c') \<Longrightarrow>
     c \<le> c' \<and> (c \<le> right s + 1 \<longrightarrow> c' \<le> right s + 1) \<and>
     tested s' = tested s @ [c .. min c' (right s)] \<and>
     ignoredItems s' = ignoredItems s @ [c .. c' - 1] \<and>
     ((c' \<le> right s \<and> ask (length (tested s) + nat (c' - c)) c' = PASS \<and>
         left s' = c' + 1 \<and> right s' = right s \<and>
         lastGoodIndex s' = c' \<and> firstBadIndex s' = firstBadIndex s)
      \<or> (c' \<le> right s \<and> ask (length (tested s) + nat (c' - c)) c' = FAIL \<and>
         left s' = left s \<and> right s' = c' - 1 \<and>
         lastGoodIndex s' = lastGoodIndex s \<and> firstBadIndex s' = c')
      \<or> (c' > right s \<and> left s' = left s \<and> right s' = right s \<and>
         lastGoodIndex s' = lastGoodIndex s \<and> firstBadIndex s' = firstBadIndex s))"
proof (induction "nat (right s + 1 - c)" arbitrary: s c)
  case 0
  then have "right s < c" by simp
  with "0.prems" show ?case by (simp add: inner_stop)
next
  case (Suc n)
  then have le: "c \<le> right s" by simp
  show ?case
  proof (cases "run_commands parses options (item_at items c) (executed s)")
    case (Inl x)
    with le Suc.prems show ?thesis by (cases x) (simp add: inner_abort)
  next
    case (Inr lines)
    show ?thesis
    proof (cases "ask (length (tested s)) c")
      case PASS
      with le Inr Suc.prems show ?thesis by (auto simp add: inner_PASS)
    next
      case FAIL
      with le Inr Suc.prems show ?thesis by (auto simp add: inner_FAIL)
    next
      case IGNORE
      let ?s2 = "s\<lparr>tested := tested s @ [c], executed := lines,
                   ignoredItems := ignoredItems s @ [c]\<rparr>"
      from le Inr IGNORE Suc.prems
      have eq: "inner parses options items ask ?s2 (c + 1) = Inr (s', c')"
        by (simp add: inner_IGNORE)
      have m: "n = nat (right ?s2 + 1 - (c + 1))" using Suc.hyps(2) by simp
      note ih = Suc.hyps(1)[OF m eq]
      from ih have c1: "c + 1 \<le> c'" by (rule conjunct1)
      have up: "[c .. min c' (right s)] = c # [c + 1 .. min c' (right s)]"
        using c1 le by (simp add: upto_rec1)
      have up2: "[c .. c' - 1] = c # [c + 1 .. c' - 1]"
        using c1 by (simp add: upto_rec1)
      have n: "Suc (nat (c' - (c + 1))) = nat (c' - c)" using c1 by simp
      show ?thesis using ih le unfolding up up2 n[symmetric] by simp
    qed
  qed
qed

text \<open>
  What the inner loop has done when a command throws: the indices it went through
  before had the answer \<open>IGNORE\<close>, and the range and the recorded indices are untouched.
\<close>

lemma inner_abort_shape:
  "inner parses options items ask s c = Inl (e, sa) \<Longrightarrow>
     \<exists>c'. c \<le> c' \<and> c' \<le> right s \<and>
       tested sa = tested s @ [c .. c' - 1] \<and>
       ignoredItems sa = ignoredItems s @ [c .. c' - 1] \<and>
       left sa = left s \<and> right sa = right s \<and>
       lastGoodIndex sa = lastGoodIndex s \<and> firstBadIndex sa = firstBadIndex s"
proof (induction "nat (right s + 1 - c)" arbitrary: s c)
  case 0
  then have "right s < c" by simp
  with "0.prems" show ?case by (simp add: inner_stop)
next
  case (Suc n)
  then have le: "c \<le> right s" by simp
  show ?case
  proof (cases "run_commands parses options (item_at items c) (executed s)")
    case (Inl x)
    obtain e' lines where x: "x = (e', lines)" by (cases x)
    from le Inl x Suc.prems have "sa = s\<lparr>executed := lines\<rparr>" by (simp add: inner_abort)
    with le show ?thesis by (intro exI[of _ c]) simp
  next
    case (Inr lines)
    show ?thesis
    proof (cases "ask (length (tested s)) c")
      case PASS
      with le Inr Suc.prems show ?thesis by (simp add: inner_PASS)
    next
      case FAIL
      with le Inr Suc.prems show ?thesis by (simp add: inner_FAIL)
    next
      case IGNORE
      let ?s2 = "s\<lparr>tested := tested s @ [c], executed := lines,
                   ignoredItems := ignoredItems s @ [c]\<rparr>"
      from le Inr IGNORE Suc.prems
      have eq: "inner parses options items ask ?s2 (c + 1) = Inl (e, sa)"
        by (simp add: inner_IGNORE)
      have m: "n = nat (right ?s2 + 1 - (c + 1))" using Suc.hyps(2) by simp
      from Suc.hyps(1)[OF m eq] obtain c' where c': "c + 1 \<le> c'" "c' \<le> right s"
        "tested sa = tested ?s2 @ [c + 1 .. c' - 1]"
        "ignoredItems sa = ignoredItems ?s2 @ [c + 1 .. c' - 1]"
        "left sa = left s" "right sa = right s"
        "lastGoodIndex sa = lastGoodIndex s" "firstBadIndex sa = firstBadIndex s"
        by auto
      have up: "[c .. c' - 1] = c # [c + 1 .. c' - 1]"
        using c'(1) by (simp add: upto_rec1)
      show ?thesis
        by (intro exI[of _ c']) (use c' up in simp)
    qed
  qed
qed

text \<open>
  What one iteration of the outer loop has done when it is not left by an exception, by
  the way the inner loop was left: a \<open>PASS\<close> at \<open>c\<close>, a \<open>FAIL\<close> at \<open>c\<close>, or no answer but
  \<open>IGNORE\<close> up to \<open>right\<close>.
\<close>

lemma outer_cases:
  assumes "left s \<le> right s" and "outer_body parses options items ask s = Inr s'"
  obtains
    (Pass) c where "(left s + right s) div 2 \<le> c" "c \<le> right s"
      "ask (length (tested s) + nat (c - (left s + right s) div 2)) c = PASS"
      "left s' = c + 1" "right s' = right s"
      "lastGoodIndex s' = c" "firstBadIndex s' = firstBadIndex s"
      "tested s' = tested s @ [(left s + right s) div 2 .. c]"
      "ignoredItems s' = ignoredItems s @ [(left s + right s) div 2 .. c - 1]"
  | (Fail) c where "(left s + right s) div 2 \<le> c" "c \<le> right s"
      "ask (length (tested s) + nat (c - (left s + right s) div 2)) c = FAIL"
      "left s' = left s" "right s' = (left s + right s) div 2 - 1"
      "lastGoodIndex s' = lastGoodIndex s" "firstBadIndex s' = c"
      "tested s' = tested s @ [(left s + right s) div 2 .. c]"
      "ignoredItems s' = ignoredItems s @ [(left s + right s) div 2 .. c - 1]"
  | (Exhausted)
      "left s' = left s" "right s' = (left s + right s) div 2 - 1"
      "lastGoodIndex s' = lastGoodIndex s" "firstBadIndex s' = firstBadIndex s"
      "tested s' = tested s @ [(left s + right s) div 2 .. right s]"
      "ignoredItems s' = ignoredItems s @ [(left s + right s) div 2 .. right s]"
proof -
  define mid where "mid = (left s + right s) div 2"
  from assms(2) obtain s1 c where eq: "inner parses options items ask s mid = Inr (s1, c)"
    and ob: "s' = (if c > right s1 then s1\<lparr>right := mid - 1\<rparr> else s1)"
    by (auto simp add: outer_body_def Let_def mid_def[symmetric] split: sum.splits)
  have midr: "mid \<le> right s" "left s \<le> mid" using assms(1) by (simp_all add: mid_def)
  note sh = inner_shape[OF eq]
  from sh have cb: "mid \<le> c" "c \<le> right s + 1" using midr by simp_all
  from sh consider
      (p) "c \<le> right s" "ask (length (tested s) + nat (c - mid)) c = PASS"
          "left s1 = c + 1" "right s1 = right s" "lastGoodIndex s1 = c"
          "firstBadIndex s1 = firstBadIndex s"
    | (f) "c \<le> right s" "ask (length (tested s) + nat (c - mid)) c = FAIL"
          "left s1 = left s" "right s1 = c - 1" "lastGoodIndex s1 = lastGoodIndex s"
          "firstBadIndex s1 = c"
    | (e) "c > right s" "left s1 = left s" "right s1 = right s"
          "lastGoodIndex s1 = lastGoodIndex s" "firstBadIndex s1 = firstBadIndex s"
    by blast
  then show thesis
  proof cases
    case p
    show thesis
      by (rule Pass[of c]) (use p sh cb ob in \<open>simp_all add: mid_def[symmetric]\<close>)
  next
    case f
    show thesis
      by (rule Fail[of c]) (use f sh cb ob in \<open>simp_all add: mid_def[symmetric]\<close>)
  next
    case e
    with cb have c: "c - 1 = right s" by simp
    show thesis
      by (intro Exhausted) (use e sh cb ob c in \<open>simp_all add: mid_def[symmetric]\<close>)
  qed
qed

lemma outer_shrinks:
  assumes "left s \<le> right s" and "outer_body parses options items ask s = Inr s'"
  shows "left s \<le> left s' \<and> right s' \<le> right s \<and> left s' \<le> right s' + 1
       \<and> right s' - left s' < right s - left s"
  using assms by (cases rule: outer_cases[OF assms]) auto

lemma outer_abort:
  assumes "left s \<le> right s" and "outer_body parses options items ask s = Inl (e, sa)"
  shows "\<exists>c'. (left s + right s) div 2 \<le> c' \<and> c' \<le> right s \<and>
       tested sa = tested s @ [(left s + right s) div 2 .. c' - 1] \<and>
       ignoredItems sa = ignoredItems s @ [(left s + right s) div 2 .. c' - 1] \<and>
       left sa = left s \<and> right sa = right s \<and>
       lastGoodIndex sa = lastGoodIndex s \<and> firstBadIndex sa = firstBadIndex s"
proof -
  from assms(2)
  have "inner parses options items ask s ((left s + right s) div 2) = Inl (e, sa)"
    by (auto simp add: outer_body_def Let_def split: sum.splits)
  then show ?thesis by (rule inner_abort_shape)
qed

section \<open>The outer loop\<close>

text \<open>
  \<open>while (left <= right)\<close>: the range shrinks in every iteration that is not left by an
  exception, which is the termination argument.
\<close>

function search ::
  "shell \<Rightarrow> BisectOptions \<Rightarrow> string list \<Rightarrow> answers \<Rightarrow> state \<Rightarrow> (error \<times> state) + state" where
  "search parses options items ask s =
     (if left s \<le> right s then
        (case outer_body parses options items ask s of
           Inl x \<Rightarrow> Inl x
         | Inr s' \<Rightarrow> search parses options items ask s')
      else Inr s)"
  by pat_completeness auto
termination search
proof (relation "measure (\<lambda>(parses, options, items, ask, s). nat (right s - left s + 1))")
  show "wf (measure (\<lambda>(parses, options, items, ask, s). nat (right s - left s + 1)))"
    by simp
next
  fix parses :: shell and options :: BisectOptions and items :: "string list"
    and ask :: answers and s s' :: state
  assume "left s \<le> right s" and "outer_body parses options items ask s = Inr s'"
  from outer_shrinks[OF this] \<open>left s \<le> right s\<close>
  show "((parses, options, items, ask, s'), parses, options, items, ask, s)
        \<in> measure (\<lambda>(parses, options, items, ask, s). nat (right s - left s + 1))"
    by simp
qed

text \<open>
  The number of iterations the outer loop begins from a state, the one that an
  exception leaves included.
\<close>

function outer_iterations ::
  "shell \<Rightarrow> BisectOptions \<Rightarrow> string list \<Rightarrow> answers \<Rightarrow> state \<Rightarrow> nat" where
  "outer_iterations parses options items ask s =
     (if left s \<le> right s then
        Suc (case outer_body parses options items ask s of
               Inl x \<Rightarrow> 0
             | Inr s' \<Rightarrow> outer_iterations parses options items ask s')
      else 0)"
  by pat_completeness auto
termination outer_iterations
proof (relation "measure (\<lambda>(parses, options, items, ask, s). nat (right s - left s + 1))")
  show "wf (measure (\<lambda>(parses, options, items, ask, s). nat (right s - left s + 1)))"
    by simp
next
  fix parses :: shell and options :: BisectOptions and items :: "string list"
    and ask :: answers and s s' :: state
  assume "left s \<le> right s" and "outer_body parses options items ask s = Inr s'"
  from outer_shrinks[OF this] \<open>left s \<le> right s\<close>
  show "((parses, options, items, ask, s'), parses, options, items, ask, s)
        \<in> measure (\<lambda>(parses, options, items, ask, s). nat (right s - left s + 1))"
    by simp
qed

declare search.simps [simp del] outer_iterations.simps [simp del]

text \<open>The variables as \<open>bisect\<close> sets them before the loop.\<close>

definition initial :: "string list \<Rightarrow> state" where
  "initial items =
     \<lparr>left = 0, right = int (length items) - 1, lastGoodIndex = - 1, firstBadIndex = - 1,
      ignoredItems = [], tested = [], executed = []\<rparr>"

section \<open>The states of a run\<close>

text \<open>
  One turn of the outer loop: no change once the loop has ended, and nothing after an
  exception. \<open>after_outer k\<close> is the state of a run after \<open>k\<close> turns, or the exception that
  ended the run before with the state in which it was thrown; \<open>state_of\<close> reads the state
  in both cases. Every assignment to \<open>lastGoodIndex\<close> or \<open>firstBadIndex\<close> is
  followed by \<open>break\<close>, so a turn assigns at most one of them, once: the values the two
  variables take in a run are the ones they have in these states.
\<close>

definition outer_step ::
  "shell \<Rightarrow> BisectOptions \<Rightarrow> string list \<Rightarrow> answers \<Rightarrow> (error \<times> state) + state
     \<Rightarrow> (error \<times> state) + state" where
  "outer_step parses options items ask r =
     (case r of
        Inl x \<Rightarrow> Inl x
      | Inr s \<Rightarrow> if left s \<le> right s then outer_body parses options items ask s else Inr s)"

definition after_outer ::
  "shell \<Rightarrow> BisectOptions \<Rightarrow> string list \<Rightarrow> answers \<Rightarrow> nat \<Rightarrow> (error \<times> state) + state" where
  "after_outer parses options items ask k =
     ((outer_step parses options items ask) ^^ k) (Inr (initial items))"

definition state_of :: "(error \<times> state) + state \<Rightarrow> state" where
  "state_of r = (case r of Inl (e, s) \<Rightarrow> s | Inr s \<Rightarrow> s)"

section \<open>The report\<close>

text \<open>
  What \<open>bisect\<close> prints after the loop, one constructor for each \<open>console.log\<close>, with the
  values it interpolates.
\<close>

datatype line =
    Separator
  | Complete
  | Ignored nat "(string \<times> int) list"
  | LastGood string int
  | NoGood
  | FirstBad string int
  | NoBad
  | IntroducedBetween string string
  | IntroducedInRange
  | After string
  | Between "string list"
  | Before string
  | ConsiderUntested
  | AllAfter string
  | AllBefore string

text \<open>\<open>${items[i]}\<close> in a template: the item, or the text \<open>undefined\<close> out of range.\<close>

definition show_item :: "string list \<Rightarrow> int \<Rightarrow> string" where
  "show_item items i = (case item_at items i of Some x \<Rightarrow> x | None \<Rightarrow> ''undefined'')"

text \<open>\<open>"${items[i]}" (ignored)\<close> and \<open>"${items[i]}" (untested)\<close>.\<close>

definition annotated :: "string list \<Rightarrow> int list \<Rightarrow> int \<Rightarrow> string" where
  "annotated items ignored i =
     (if i \<in> set ignored
      then [CHR 0x22] @ show_item items i @ [CHR 0x22] @ '' (ignored)''
      else [CHR 0x22] @ show_item items i @ [CHR 0x22] @ '' (untested)'')"

text \<open>\<open>s.includes(sub)\<close>.\<close>

fun includes_str :: "string \<Rightarrow> string \<Rightarrow> bool" where
  "includes_str [] sub = (sub = [])"
| "includes_str (c # cs) sub = (take (length sub) (c # cs) = sub \<or> includes_str cs sub)"

text \<open>Lines 197 to 243: the boundary between the last good and the first bad item.\<close>

definition boundary :: "string list \<Rightarrow> state \<Rightarrow> line list" where
  "boundary items s =
     (if firstBadIndex s \<ge> 0 \<and> lastGoodIndex s \<ge> 0 then
        let gap = firstBadIndex s - lastGoodIndex s in
        if gap = 1 then
          [IntroducedBetween (show_item items (lastGoodIndex s)) (show_item items (firstBadIndex s))]
        else if gap > 1 then
          let itemsInBetween =
                map (annotated items (ignoredItems s)) [lastGoodIndex s + 1 .. firstBadIndex s - 1]
          in [IntroducedInRange, After (show_item items (lastGoodIndex s))]
             @ (if length itemsInBetween > 0 then [Between itemsInBetween] else [])
             @ [Before (show_item items (firstBadIndex s))]
             @ (if list_ex (\<lambda>item. includes_str item ''(untested)'') itemsInBetween
                then [ConsiderUntested] else [])
        else []
      else if lastGoodIndex s \<ge> 0 \<and> firstBadIndex s = - 1 then
        [AllAfter (show_item items (lastGoodIndex s))]
      else if lastGoodIndex s = - 1 \<and> firstBadIndex s \<ge> 0 then
        [AllBefore (show_item items (firstBadIndex s))]
      else [])"

text \<open>Lines 165 to 243: everything printed after the loop.\<close>

definition report :: "string list \<Rightarrow> state \<Rightarrow> line list" where
  "report items s =
     [Separator, Complete]
     @ (if length (ignoredItems s) > 0
        then [Ignored (length (ignoredItems s))
                (map (\<lambda>i. (show_item items i, i + 1)) (ignoredItems s))]
        else [])
     @ (if lastGoodIndex s \<ge> 0
        then [LastGood (show_item items (lastGoodIndex s)) (lastGoodIndex s + 1)] else [NoGood])
     @ (if firstBadIndex s \<ge> 0
        then [FirstBad (show_item items (firstBadIndex s)) (firstBadIndex s + 1)] else [NoBad])
     @ boundary items s"

text \<open>
  \<open>bisect\<close>, given the items that \<open>loadItems\<close> read from the file: with no item it prints
  an error and exits with status 1; otherwise it runs the loop and prints the report.
  An exception thrown while a command is run leaves \<open>bisect\<close>, and \<open>main\<close> exits with
  status 1: nothing of the report is printed.
\<close>

definition bisect ::
  "shell \<Rightarrow> BisectOptions \<Rightarrow> string list \<Rightarrow> answers \<Rightarrow> error + state \<times> line list" where
  "bisect parses options items ask =
     (if length items = 0 then Inl NoItems
      else case search parses options items ask (initial items) of
             Inl (e, s) \<Rightarrow> Inl e
           | Inr s \<Rightarrow> Inr (s, report items s))"

section \<open>The binary variant\<close>









section \<open>Auxiliary notions\<close>

text \<open>The lines that the step for one item hands to dax, in order.\<close>

definition command_lines :: "BisectOptions \<Rightarrow> string option \<Rightarrow> string list" where
  "command_lines options currentItem =
     (case nextStateCommand options of
        Some c \<Rightarrow> if c \<noteq> [] then [finalCommand c currentItem] else []
      | None \<Rightarrow> [])
     @ [finalCommand (testCommand options) None]"

text \<open>
  What holds at the head of the outer loop: the range is in order, the last good index
  lies left of it and the first bad index right of it, and every index tested so far
  lies outside it.
\<close>

definition inv :: "state \<Rightarrow> bool" where
  "inv s \<longleftrightarrow>
     0 \<le> left s \<and> left s \<le> right s + 1 \<and>
     - 1 \<le> lastGoodIndex s \<and> lastGoodIndex s < left s \<and>
     (firstBadIndex s = - 1 \<or> right s < firstBadIndex s) \<and>
     (\<forall>i\<in>set (tested s). i < left s \<or> right s < i) \<and> distinct (tested s)"


text \<open>Without \<open>IGNORE\<close> the two recorded indices sit at the ends of the range.\<close>

definition clean_inv :: "state \<Rightarrow> bool" where
  "clean_inv s \<longleftrightarrow>
     left s \<le> right s + 1 \<and> lastGoodIndex s = left s - 1 \<and>
     (firstBadIndex s = - 1 \<or> firstBadIndex s = right s + 1)"



section \<open>The outer loop ends\<close>

lemma outer_iterations_le:
  "outer_iterations parses options items ask s \<le> nat (right s - left s + 1)"
proof (induction parses options items ask s rule: outer_iterations.induct)
  case (1 parses options items ask s)
  show ?case
  proof (cases "left s \<le> right s")
    case False
    then show ?thesis by (simp add: outer_iterations.simps[of _ _ _ _ s])
  next
    case True
    show ?thesis
    proof (cases "outer_body parses options items ask s")
      case (Inl x)
      with True show ?thesis by (simp add: outer_iterations.simps[of _ _ _ _ s])
    next
      case (Inr s')
      have "nat (right s' - left s' + 1) < nat (right s - left s + 1)"
        using outer_shrinks[OF True Inr] True by linarith
      with "1.IH"[OF True Inr] True Inr
      show ?thesis by (simp add: outer_iterations.simps[of _ _ _ _ s])
    qed
  qed
qed

lemma outer_steps_Inl: "((outer_step parses options items ask) ^^ k) (Inl x) = Inl x"
  by (induction k) (simp_all add: outer_step_def)

lemma search_outer_step:
  "outer_iterations parses options items ask s \<le> k \<Longrightarrow>
   search parses options items ask s = ((outer_step parses options items ask) ^^ k) (Inr s)"
proof (induction k arbitrary: s)
  case 0
  then have "\<not> left s \<le> right s"
    by (simp add: outer_iterations.simps[of _ _ _ _ s] split: if_splits)
  then show ?case by (simp add: search.simps[of _ _ _ _ s])
next
  case (Suc k)
  show ?case
  proof (cases "left s \<le> right s")
    case False
    then have "outer_iterations parses options items ask s \<le> k"
      by (simp add: outer_iterations.simps[of _ _ _ _ s])
    moreover have "outer_step parses options items ask (Inr s) = Inr s"
      using False by (simp add: outer_step_def)
    ultimately show ?thesis
      by (simp add: funpow_Suc_right Suc.IH del: funpow.simps)
  next
    case True
    then have os: "outer_step parses options items ask (Inr s)
                 = outer_body parses options items ask s"
      by (simp add: outer_step_def)
    show ?thesis
    proof (cases "outer_body parses options items ask s")
      case (Inl x)
      with True os show ?thesis
        by (simp add: search.simps[of _ _ _ _ s] funpow_Suc_right outer_steps_Inl
            del: funpow.simps)
    next
      case (Inr s')
      with Suc.prems True have "outer_iterations parses options items ask s' \<le> k"
        by (simp add: outer_iterations.simps[of _ _ _ _ s])
      from Suc.IH[OF this] True os Inr show ?thesis
        by (simp add: search.simps[of _ _ _ _ s] funpow_Suc_right del: funpow.simps)
    qed
  qed
qed

lemma search_after_outer:
  "outer_iterations parses options items ask (initial items) \<le> k \<Longrightarrow>
   search parses options items ask (initial items) = after_outer parses options items ask k"
  unfolding after_outer_def by (rule search_outer_step)

lemma initial_iterations:
  "outer_iterations parses options items ask (initial items) \<le> length items"
  using outer_iterations_le[of parses options items ask "initial items"]
  by (simp add: initial_def)

lemma search_done:
  "search parses options items ask s = Inr f \<Longrightarrow> right f < left f"
proof (induction parses options items ask s rule: search.induct)
  case (1 parses options items ask s)
  show ?case
  proof (cases "left s \<le> right s")
    case False
    with "1.prems" show ?thesis by (simp add: search.simps[of _ _ _ _ s])
  next
    case True
    with "1.prems" obtain s' where s': "outer_body parses options items ask s = Inr s'"
      and "search parses options items ask s' = Inr f"
      by (auto simp add: search.simps[of _ _ _ _ s] split: sum.splits)
    from "1.IH"[OF True s' this(2)] show ?thesis .
  qed
qed

section \<open>C5: the range shrinks in every outer iteration\<close>

text \<open>
  C5. For every list of items, whatever the answers are and whatever dax does with the
  command lines: an iteration of the outer loop, entered with \<open>left \<le> right\<close> and
  not left by an exception, moves neither bound outwards and makes the size
  \<open>right - left + 1\<close> of the range strictly smaller. From the initial state the loop
  begins at most \<open>N\<close> iterations, \<open>N\<close> the number of items, whether an exception ends it
  or not; its result is what that many turns make of the initial state; and when it is
  not an exception, the range is empty.
\<close>

theorem C5_range_shrinks:
  "(left s \<le> right s \<and> outer_body parses options items ask s = Inr s' \<longrightarrow>
      left s \<le> left s' \<and> right s' \<le> right s
    \<and> right s' - left s' + 1 < right s - left s + 1)
   \<and> outer_iterations parses options items ask (initial items) \<le> length items
   \<and> search parses options items ask (initial items) =
       ((outer_step parses options items ask)
          ^^ outer_iterations parses options items ask (initial items)) (Inr (initial items))
   \<and> (search parses options items ask (initial items) = Inr f \<longrightarrow> right f < left f)"
proof -
  have "left s \<le> right s \<and> outer_body parses options items ask s = Inr s' \<longrightarrow>
      left s \<le> left s' \<and> right s' \<le> right s
    \<and> right s' - left s' + 1 < right s - left s + 1"
    using outer_shrinks[of s parses options items ask s'] by auto
  moreover have "search parses options items ask (initial items) =
       ((outer_step parses options items ask)
          ^^ outer_iterations parses options items ask (initial items)) (Inr (initial items))"
    by (rule search_outer_step) simp
  ultimately show ?thesis
    using initial_iterations[of parses options items ask]
      search_done[of parses options items ask "initial items" f]
    by blast
qed

text \<open>
  Four items, every answer \<open>IGNORE\<close>, every line parsed: the first turn tests the indices
  1, 2 and 3 and leaves the range \<open>[0, 0]\<close>.
\<close>

theorem C5_witness:
  "left (initial [''a'', ''b'', ''c'', ''d'']) \<le> right (initial [''a'', ''b'', ''c'', ''d''])
   \<and> outer_body (\<lambda>l. True) \<lparr>testCommand = ''t'', itemsFile = ''f'', nextStateCommand = None\<rparr>
        [''a'', ''b'', ''c'', ''d''] (\<lambda>k i. IGNORE) (initial [''a'', ''b'', ''c'', ''d''])
       = Inr \<lparr>left = 0, right = 0, lastGoodIndex = - 1, firstBadIndex = - 1,
        ignoredItems = [1, 2, 3], tested = [1, 2, 3], executed = [''t'', ''t'', ''t'']\<rparr>
   \<and> right \<lparr>left = 0, right = 0, lastGoodIndex = - 1, firstBadIndex = - 1,
        ignoredItems = [1, 2, 3], tested = [1, 2, 3], executed = [''t'', ''t'', ''t'']\<rparr>
       - left \<lparr>left = 0, right = 0, lastGoodIndex = - 1, firstBadIndex = - 1,
        ignoredItems = [1, 2, 3], tested = [1, 2, 3], executed = [''t'', ''t'', ''t'']\<rparr> + 1
       < right (initial [''a'', ''b'', ''c'', ''d'']) - left (initial [''a'', ''b'', ''c'', ''d'']) + 1
   \<and> outer_iterations (\<lambda>l. True) \<lparr>testCommand = ''t'', itemsFile = ''f'', nextStateCommand = None\<rparr>
        [''a'', ''b'', ''c'', ''d''] (\<lambda>k i. IGNORE) (initial [''a'', ''b'', ''c'', ''d'']) \<le> 4"
proof -
  have h: "left (initial [''a'', ''b'', ''c'', ''d'']) \<le> right (initial [''a'', ''b'', ''c'', ''d''])
   \<and> outer_body (\<lambda>l. True) \<lparr>testCommand = ''t'', itemsFile = ''f'', nextStateCommand = None\<rparr>
        [''a'', ''b'', ''c'', ''d''] (\<lambda>k i. IGNORE) (initial [''a'', ''b'', ''c'', ''d''])
       = Inr \<lparr>left = 0, right = 0, lastGoodIndex = - 1, firstBadIndex = - 1,
        ignoredItems = [1, 2, 3], tested = [1, 2, 3], executed = [''t'', ''t'', ''t'']\<rparr>"
    by code_simp
  from C5_range_shrinks[of "initial [''a'', ''b'', ''c'', ''d'']" "\<lambda>l. True" "\<lparr>testCommand = ''t'', itemsFile = ''f'', nextStateCommand = None\<rparr>"
      "[''a'', ''b'', ''c'', ''d'']" "\<lambda>k i. IGNORE"
      "\<lparr>left = 0, right = 0, lastGoodIndex = - 1, firstBadIndex = - 1,
        ignoredItems = [1, 2, 3], tested = [1, 2, 3], executed = [''t'', ''t'', ''t'']\<rparr>"] h
  have "right \<lparr>left = 0, right = 0, lastGoodIndex = - 1, firstBadIndex = - 1,
        ignoredItems = [1, 2, 3], tested = [1, 2, 3], executed = [''t'', ''t'', ''t'']\<rparr>
       - left \<lparr>left = 0, right = 0, lastGoodIndex = - 1, firstBadIndex = - 1,
        ignoredItems = [1, 2, 3], tested = [1, 2, 3], executed = [''t'', ''t'', ''t'']\<rparr> + 1
       < right (initial [''a'', ''b'', ''c'', ''d'']) - left (initial [''a'', ''b'', ''c'', ''d'']) + 1
   \<and> outer_iterations (\<lambda>l. True) \<lparr>testCommand = ''t'', itemsFile = ''f'', nextStateCommand = None\<rparr>
        [''a'', ''b'', ''c'', ''d''] (\<lambda>k i. IGNORE) (initial [''a'', ''b'', ''c'', ''d'']) \<le> length [''a'', ''b'', ''c'', ''d'']"
    by blast
  with h show ?thesis by simp
qed

section \<open>The invariant holds along a run\<close>

lemma inv_initial: "inv (initial items)"
  by (simp add: inv_def initial_def)

lemma mid_bounds:
  "left s \<le> right s \<Longrightarrow>
   left s \<le> (left s + right s) div 2 \<and> (left s + right s) div 2 \<le> right s"
  by linarith

lemma inv_outer_body:
  assumes "inv s" "left s \<le> right s" "outer_body parses options items ask s = Inr s'"
  shows "inv s'"
  using assms(2,3)
proof (cases rule: outer_cases)
  case (Pass c)
  with assms mid_bounds[OF assms(2)] show ?thesis unfolding inv_def by auto
next
  case (Fail c)
  with assms mid_bounds[OF assms(2)] show ?thesis unfolding inv_def by auto
next
  case Exhausted
  with assms mid_bounds[OF assms(2)] show ?thesis unfolding inv_def by auto
qed

lemma after_outer_Suc:
  "after_outer parses options items ask (Suc k)
     = outer_step parses options items ask (after_outer parses options items ask k)"
  by (simp add: after_outer_def)

lemma after_outer_Suc_Inr:
  assumes "after_outer parses options items ask (Suc k) = Inr s'"
  obtains s where "after_outer parses options items ask k = Inr s"
    and "s' = s \<or> (left s \<le> right s \<and> outer_body parses options items ask s = Inr s')"
  using assms unfolding after_outer_Suc
  by (cases "after_outer parses options items ask k")
     (auto simp add: outer_step_def split: if_splits)

lemma inv_after_outer:
  "after_outer parses options items ask k = Inr s \<Longrightarrow> inv s"
proof (induction k arbitrary: s)
  case 0
  then have "s = initial items" by (simp add: after_outer_def)
  then show ?case by (simp add: inv_initial)
next
  case (Suc k)
  from Suc.prems obtain s0 where s0: "after_outer parses options items ask k = Inr s0"
    and st: "s = s0 \<or> (left s0 \<le> right s0 \<and> outer_body parses options items ask s0 = Inr s)"
    by (rule after_outer_Suc_Inr)
  from Suc.IH[OF s0] st show ?case by (auto intro: inv_outer_body)
qed

text \<open>A run that an exception ended was in the outer loop, in a state of the run.\<close>

lemma abort_of:
  "after_outer parses options items ask k = Inl (e, sa) \<Longrightarrow>
   \<exists>s. inv s \<and> left s \<le> right s \<and> outer_body parses options items ask s = Inl (e, sa)"
proof (induction k)
  case 0
  then show ?case by (simp add: after_outer_def)
next
  case (Suc k)
  show ?case
  proof (cases "after_outer parses options items ask k")
    case (Inl x)
    with Suc.prems have "after_outer parses options items ask k = Inl (e, sa)"
      by (simp add: after_outer_Suc outer_step_def)
    then show ?thesis by (rule Suc.IH)
  next
    case (Inr s)
    with Suc.prems have "left s \<le> right s \<and> outer_body parses options items ask s = Inl (e, sa)"
      by (simp add: after_outer_Suc outer_step_def split: if_splits)
    with inv_after_outer[OF Inr] show ?thesis by blast
  qed
qed

text \<open>
  What holds in every state of a run, the one in which an exception is thrown included:
  the last good index is below the first bad index, and no index was tested twice.
\<close>

lemma abort_state:
  assumes "inv s" "left s \<le> right s" "outer_body parses options items ask s = Inl (e, sa)"
  shows "lastGoodIndex sa = lastGoodIndex s \<and> firstBadIndex sa = firstBadIndex s
       \<and> distinct (tested sa)"
proof -
  from outer_abort[OF assms(2,3)] obtain c' where c':
      "(left s + right s) div 2 \<le> c'" "c' \<le> right s"
      "tested sa = tested s @ [(left s + right s) div 2 .. c' - 1]"
      "lastGoodIndex sa = lastGoodIndex s" "firstBadIndex sa = firstBadIndex s"
    by blast
  from assms(1) have "distinct (tested s)" "\<forall>i\<in>set (tested s). i < left s \<or> right s < i"
    unfolding inv_def by simp_all
  with c' mid_bounds[OF assms(2)] have "distinct (tested sa)" by auto
  with c' show ?thesis by simp
qed

lemma inv_gap:
  "inv s \<Longrightarrow> 0 \<le> lastGoodIndex s \<Longrightarrow> 0 \<le> firstBadIndex s \<Longrightarrow>
   lastGoodIndex s < firstBadIndex s"
  unfolding inv_def by auto

lemma state_of_run:
  "distinct (tested (state_of (after_outer parses options items ask k)))
   \<and> (0 \<le> lastGoodIndex (state_of (after_outer parses options items ask k))
        \<and> 0 \<le> firstBadIndex (state_of (after_outer parses options items ask k)) \<longrightarrow>
      lastGoodIndex (state_of (after_outer parses options items ask k))
        < firstBadIndex (state_of (after_outer parses options items ask k)))"
proof (cases "after_outer parses options items ask k")
  case (Inr s)
  from inv_after_outer[OF Inr] have "distinct (tested s)" unfolding inv_def by simp
  with inv_gap[OF inv_after_outer[OF Inr]] Inr show ?thesis by (simp add: state_of_def)
next
  case (Inl x)
  obtain e sa where x: "x = (e, sa)" by (cases x)
  from abort_of[OF Inl[unfolded x]] obtain s where s: "inv s" "left s \<le> right s"
      "outer_body parses options items ask s = Inl (e, sa)" by blast
  from abort_state[OF s] inv_gap[OF s(1)] Inl x show ?thesis by (simp add: state_of_def)
qed

lemma body_monotone:
  assumes "inv s" "left s \<le> right s" "outer_body parses options items ask s = Inr s'"
  shows "lastGoodIndex s \<le> lastGoodIndex s'
       \<and> (0 \<le> firstBadIndex s \<longrightarrow> 0 \<le> firstBadIndex s' \<and> firstBadIndex s' \<le> firstBadIndex s)"
  using assms(2,3)
proof (cases rule: outer_cases)
  case (Pass c)
  with assms mid_bounds[OF assms(2)] show ?thesis unfolding inv_def by auto
next
  case (Fail c)
  with assms mid_bounds[OF assms(2)] show ?thesis unfolding inv_def by auto
next
  case Exhausted
  with assms mid_bounds[OF assms(2)] show ?thesis unfolding inv_def by auto
qed

lemma step_monotone:
  "lastGoodIndex (state_of (after_outer parses options items ask k))
     \<le> lastGoodIndex (state_of (after_outer parses options items ask (Suc k)))
   \<and> (0 \<le> firstBadIndex (state_of (after_outer parses options items ask k)) \<longrightarrow>
        0 \<le> firstBadIndex (state_of (after_outer parses options items ask (Suc k)))
      \<and> firstBadIndex (state_of (after_outer parses options items ask (Suc k)))
          \<le> firstBadIndex (state_of (after_outer parses options items ask k)))"
proof (cases "after_outer parses options items ask k")
  case (Inl x)
  then show ?thesis by (simp add: after_outer_Suc outer_step_def)
next
  case (Inr s)
  show ?thesis
  proof (cases "left s \<le> right s")
    case False
    with Inr show ?thesis by (simp add: after_outer_Suc outer_step_def)
  next
    case True
    with Inr have nx: "after_outer parses options items ask (Suc k)
                     = outer_body parses options items ask s"
      by (simp add: after_outer_Suc outer_step_def)
    show ?thesis
    proof (cases "outer_body parses options items ask s")
      case (Inr s')
      from body_monotone[OF inv_after_outer[OF \<open>after_outer parses options items ask k = Inr s\<close>] True Inr]
      show ?thesis
        using \<open>after_outer parses options items ask k = Inr s\<close> nx Inr
        by (simp add: state_of_def)
    next
      case (Inl x)
      obtain e sa where x: "x = (e, sa)" by (cases x)
      from abort_state[OF inv_after_outer[OF Inr] True Inl[unfolded x]]
      show ?thesis using Inr nx Inl x by (simp add: state_of_def)
    qed
  qed
qed

lemma run_monotone:
  "lastGoodIndex (state_of (after_outer parses options items ask j))
     \<le> lastGoodIndex (state_of (after_outer parses options items ask (j + d)))
   \<and> (0 \<le> firstBadIndex (state_of (after_outer parses options items ask j)) \<longrightarrow>
        0 \<le> firstBadIndex (state_of (after_outer parses options items ask (j + d)))
      \<and> firstBadIndex (state_of (after_outer parses options items ask (j + d)))
          \<le> firstBadIndex (state_of (after_outer parses options items ask j)))"
proof (induction d)
  case 0
  show ?case by simp
next
  case (Suc d)
  from step_monotone[of parses options items ask "j + d"] Suc
  show ?case by auto
qed

lemma break_marks:
  "inner parses options items ask s ((left s + right s) div 2) = Inr (s1, c) \<Longrightarrow>
   \<exists>s'. outer_body parses options items ask s = Inr s'
       \<and> lastGoodIndex s' = lastGoodIndex s1 \<and> firstBadIndex s' = firstBadIndex s1"
  by (simp add: outer_body_def Let_def)

section \<open>C7: the recorded indices move one way\<close>

text \<open>
  C7. Whatever the answers are, along a run \<open>lastGoodIndex\<close> never decreases, and
  \<open>firstBadIndex\<close>, once set, stays set and never increases: the state after \<open>j\<close> turns of
  the outer loop is compared with the state after \<open>k \<ge> j\<close> turns, the state in which an
  exception ended the run included. What as many turns as there are items make of the
  initial state is the result of the loop.
\<close>

theorem C7_indices_monotone:
  assumes "j \<le> k"
  shows "lastGoodIndex (state_of (after_outer parses options items ask j))
           \<le> lastGoodIndex (state_of (after_outer parses options items ask k))
       \<and> (0 \<le> firstBadIndex (state_of (after_outer parses options items ask j)) \<longrightarrow>
             0 \<le> firstBadIndex (state_of (after_outer parses options items ask k))
           \<and> firstBadIndex (state_of (after_outer parses options items ask k))
               \<le> firstBadIndex (state_of (after_outer parses options items ask j)))
       \<and> search parses options items ask (initial items)
           = after_outer parses options items ask (length items)"
proof -
  from assms obtain d where k: "k = j + d" by (auto simp: le_iff_add)
  show ?thesis
    unfolding k
    using run_monotone[of parses options items ask j d]
      search_after_outer[OF initial_iterations, of parses options items ask]
    by blast
qed

text \<open>Four items, the first good and the others bad; after one turn and after two.\<close>

theorem C7_witness:
  "(1::nat) \<le> 2
   \<and> 0 \<le> firstBadIndex (state_of (after_outer (\<lambda>l. True) \<lparr>testCommand = ''t'', itemsFile = ''f'', nextStateCommand = None\<rparr>
            [''a'', ''b'', ''c'', ''d''] (\<lambda>k i. if i < 1 then PASS else FAIL) 1))
   \<and> firstBadIndex (state_of (after_outer (\<lambda>l. True) \<lparr>testCommand = ''t'', itemsFile = ''f'', nextStateCommand = None\<rparr>
            [''a'', ''b'', ''c'', ''d''] (\<lambda>k i. if i < 1 then PASS else FAIL) 2))
       \<le> firstBadIndex (state_of (after_outer (\<lambda>l. True) \<lparr>testCommand = ''t'', itemsFile = ''f'', nextStateCommand = None\<rparr>
            [''a'', ''b'', ''c'', ''d''] (\<lambda>k i. if i < 1 then PASS else FAIL) 1))
   \<and> lastGoodIndex (state_of (after_outer (\<lambda>l. True) \<lparr>testCommand = ''t'', itemsFile = ''f'', nextStateCommand = None\<rparr>
            [''a'', ''b'', ''c'', ''d''] (\<lambda>k i. if i < 1 then PASS else FAIL) 1))
       \<le> lastGoodIndex (state_of (after_outer (\<lambda>l. True) \<lparr>testCommand = ''t'', itemsFile = ''f'', nextStateCommand = None\<rparr>
            [''a'', ''b'', ''c'', ''d''] (\<lambda>k i. if i < 1 then PASS else FAIL) 2))"
proof -
  have h1: "(1::nat) \<le> 2" by simp
  have h2: "0 \<le> firstBadIndex (state_of (after_outer (\<lambda>l. True) \<lparr>testCommand = ''t'', itemsFile = ''f'', nextStateCommand = None\<rparr>
            [''a'', ''b'', ''c'', ''d''] (\<lambda>k i. if i < 1 then PASS else FAIL) 1))"
    by code_simp
  from C7_indices_monotone[OF h1, of "\<lambda>l. True" "\<lparr>testCommand = ''t'', itemsFile = ''f'', nextStateCommand = None\<rparr>"
      "[''a'', ''b'', ''c'', ''d'']" "\<lambda>k i. if i < 1 then PASS else FAIL"] h1 h2
  show ?thesis by blast
qed

section \<open>C9: the last good index is below the first bad index\<close>

text \<open>
  C9. Whatever the answers are, monotone or not: in every state of a run in which both
  \<open>lastGoodIndex\<close> and \<open>firstBadIndex\<close> are set, \<open>lastGoodIndex < firstBadIndex\<close>. The
  states are those after \<open>k\<close> turns of the outer loop, the state in which an exception
  ended the run included, and, within the next turn, the state \<open>s'\<close> in which the inner
  loop is left, before the check that follows it. The gap
  \<open>firstBadIndex - lastGoodIndex\<close> that the report computes from the result of the loop is
  at least 1.
\<close>

theorem C9_good_below_bad:
  "(0 \<le> lastGoodIndex (state_of (after_outer parses options items ask k))
      \<and> 0 \<le> firstBadIndex (state_of (after_outer parses options items ask k)) \<longrightarrow>
    lastGoodIndex (state_of (after_outer parses options items ask k))
      < firstBadIndex (state_of (after_outer parses options items ask k)))
   \<and> (after_outer parses options items ask k = Inr s \<and> left s \<le> right s
      \<and> inner parses options items ask s ((left s + right s) div 2) = Inr (s', c)
      \<and> 0 \<le> lastGoodIndex s' \<and> 0 \<le> firstBadIndex s' \<longrightarrow>
    lastGoodIndex s' < firstBadIndex s')
   \<and> (0 \<le> lastGoodIndex (state_of (search parses options items ask (initial items)))
      \<and> 0 \<le> firstBadIndex (state_of (search parses options items ask (initial items))) \<longrightarrow>
    1 \<le> firstBadIndex (state_of (search parses options items ask (initial items)))
          - lastGoodIndex (state_of (search parses options items ask (initial items))))"
proof -
  have brk: "lastGoodIndex s' < firstBadIndex s'"
    if "after_outer parses options items ask k = Inr s" and "left s \<le> right s"
      and "inner parses options items ask s ((left s + right s) div 2) = Inr (s', c)"
      and "0 \<le> lastGoodIndex s'" and "0 \<le> firstBadIndex s'"
  proof -
    from break_marks[OF that(3)] obtain s2 where s2:
        "outer_body parses options items ask s = Inr s2"
        "lastGoodIndex s2 = lastGoodIndex s'" "firstBadIndex s2 = firstBadIndex s'"
      by blast
    from inv_outer_body[OF inv_after_outer[OF that(1)] that(2) s2(1)] have "inv s2" .
    from inv_gap[OF this] s2 that show ?thesis by simp
  qed
  have fin: "search parses options items ask (initial items)
           = after_outer parses options items ask (length items)"
    by (rule search_after_outer[OF initial_iterations])
  from state_of_run[of parses options items ask k]
    state_of_run[of parses options items ask "length items"] brk
  show ?thesis unfolding fin by auto
qed

text \<open>Eight items; only the indices 3 and 4 pass, so the answers are not monotone.\<close>

theorem C9_witness:
  "0 \<le> lastGoodIndex (state_of (after_outer (\<lambda>l. True) \<lparr>testCommand = ''t'', itemsFile = ''f'', nextStateCommand = None\<rparr>
        [''a'', ''b'', ''c'', ''d'', ''e'', ''f'', ''g'', ''h''] (\<lambda>k i. if i = 3 \<or> i = 4 then PASS else FAIL) 2))
   \<and> 0 \<le> firstBadIndex (state_of (after_outer (\<lambda>l. True) \<lparr>testCommand = ''t'', itemsFile = ''f'', nextStateCommand = None\<rparr>
        [''a'', ''b'', ''c'', ''d'', ''e'', ''f'', ''g'', ''h''] (\<lambda>k i. if i = 3 \<or> i = 4 then PASS else FAIL) 2))
   \<and> lastGoodIndex (state_of (after_outer (\<lambda>l. True) \<lparr>testCommand = ''t'', itemsFile = ''f'', nextStateCommand = None\<rparr>
        [''a'', ''b'', ''c'', ''d'', ''e'', ''f'', ''g'', ''h''] (\<lambda>k i. if i = 3 \<or> i = 4 then PASS else FAIL) 2))
       < firstBadIndex (state_of (after_outer (\<lambda>l. True) \<lparr>testCommand = ''t'', itemsFile = ''f'', nextStateCommand = None\<rparr>
        [''a'', ''b'', ''c'', ''d'', ''e'', ''f'', ''g'', ''h''] (\<lambda>k i. if i = 3 \<or> i = 4 then PASS else FAIL) 2))
   \<and> after_outer (\<lambda>l. True) \<lparr>testCommand = ''t'', itemsFile = ''f'', nextStateCommand = None\<rparr>
        [''a'', ''b'', ''c'', ''d'', ''e'', ''f'', ''g'', ''h''] (\<lambda>k i. if i = 3 \<or> i = 4 then PASS else FAIL) 1
       = Inr \<lparr>left = 4, right = 7, lastGoodIndex = 3, firstBadIndex = - 1,
          ignoredItems = [], tested = [3], executed = [''t'']\<rparr>
   \<and> left \<lparr>left = 4, right = 7, lastGoodIndex = 3, firstBadIndex = - 1,
          ignoredItems = [], tested = [3], executed = [''t'']\<rparr>
       \<le> right \<lparr>left = 4, right = 7, lastGoodIndex = 3, firstBadIndex = - 1,
          ignoredItems = [], tested = [3], executed = [''t'']\<rparr>
   \<and> inner (\<lambda>l. True) \<lparr>testCommand = ''t'', itemsFile = ''f'', nextStateCommand = None\<rparr>
        [''a'', ''b'', ''c'', ''d'', ''e'', ''f'', ''g'', ''h''] (\<lambda>k i. if i = 3 \<or> i = 4 then PASS else FAIL)
        \<lparr>left = 4, right = 7, lastGoodIndex = 3, firstBadIndex = - 1,
          ignoredItems = [], tested = [3], executed = [''t'']\<rparr> 5
       = Inr (\<lparr>left = 4, right = 4, lastGoodIndex = 3, firstBadIndex = 5,
          ignoredItems = [], tested = [3, 5], executed = [''t'', ''t'']\<rparr>, 5)
   \<and> lastGoodIndex \<lparr>left = 4, right = 4, lastGoodIndex = 3, firstBadIndex = 5,
          ignoredItems = [], tested = [3, 5], executed = [''t'', ''t'']\<rparr>
       < firstBadIndex \<lparr>left = 4, right = 4, lastGoodIndex = 3, firstBadIndex = 5,
          ignoredItems = [], tested = [3, 5], executed = [''t'', ''t'']\<rparr>"
proof -
  have h: "0 \<le> lastGoodIndex (state_of (after_outer (\<lambda>l. True) \<lparr>testCommand = ''t'', itemsFile = ''f'', nextStateCommand = None\<rparr>
        [''a'', ''b'', ''c'', ''d'', ''e'', ''f'', ''g'', ''h''] (\<lambda>k i. if i = 3 \<or> i = 4 then PASS else FAIL) 2))"
    "0 \<le> firstBadIndex (state_of (after_outer (\<lambda>l. True) \<lparr>testCommand = ''t'', itemsFile = ''f'', nextStateCommand = None\<rparr>
        [''a'', ''b'', ''c'', ''d'', ''e'', ''f'', ''g'', ''h''] (\<lambda>k i. if i = 3 \<or> i = 4 then PASS else FAIL) 2))"
    by code_simp+
  have g: "after_outer (\<lambda>l. True) \<lparr>testCommand = ''t'', itemsFile = ''f'', nextStateCommand = None\<rparr>
        [''a'', ''b'', ''c'', ''d'', ''e'', ''f'', ''g'', ''h''] (\<lambda>k i. if i = 3 \<or> i = 4 then PASS else FAIL) 1
       = Inr \<lparr>left = 4, right = 7, lastGoodIndex = 3, firstBadIndex = - 1,
          ignoredItems = [], tested = [3], executed = [''t'']\<rparr>"
    "inner (\<lambda>l. True) \<lparr>testCommand = ''t'', itemsFile = ''f'', nextStateCommand = None\<rparr>
        [''a'', ''b'', ''c'', ''d'', ''e'', ''f'', ''g'', ''h''] (\<lambda>k i. if i = 3 \<or> i = 4 then PASS else FAIL)
        \<lparr>left = 4, right = 7, lastGoodIndex = 3, firstBadIndex = - 1,
          ignoredItems = [], tested = [3], executed = [''t'']\<rparr> 5
       = Inr (\<lparr>left = 4, right = 4, lastGoodIndex = 3, firstBadIndex = 5,
          ignoredItems = [], tested = [3, 5], executed = [''t'', ''t'']\<rparr>, 5)"
    by code_simp+
  have g': "left \<lparr>left = 4, right = 7, lastGoodIndex = 3, firstBadIndex = - 1,
          ignoredItems = [], tested = [3], executed = [''t'']\<rparr>
       \<le> right \<lparr>left = 4, right = 7, lastGoodIndex = 3, firstBadIndex = - 1,
          ignoredItems = [], tested = [3], executed = [''t'']\<rparr>"
    "inner (\<lambda>l. True) \<lparr>testCommand = ''t'', itemsFile = ''f'', nextStateCommand = None\<rparr>
        [''a'', ''b'', ''c'', ''d'', ''e'', ''f'', ''g'', ''h''] (\<lambda>k i. if i = 3 \<or> i = 4 then PASS else FAIL)
        \<lparr>left = 4, right = 7, lastGoodIndex = 3, firstBadIndex = - 1,
          ignoredItems = [], tested = [3], executed = [''t'']\<rparr>
        ((left \<lparr>left = 4, right = 7, lastGoodIndex = 3, firstBadIndex = - 1,
          ignoredItems = [], tested = [3], executed = [''t'']\<rparr>
          + right \<lparr>left = 4, right = 7, lastGoodIndex = 3, firstBadIndex = - 1,
          ignoredItems = [], tested = [3], executed = [''t'']\<rparr>) div 2)
       = Inr (\<lparr>left = 4, right = 4, lastGoodIndex = 3, firstBadIndex = 5,
          ignoredItems = [], tested = [3, 5], executed = [''t'', ''t'']\<rparr>, 5)"
    "0 \<le> lastGoodIndex \<lparr>left = 4, right = 4, lastGoodIndex = 3, firstBadIndex = 5,
          ignoredItems = [], tested = [3, 5], executed = [''t'', ''t'']\<rparr>"
    "0 \<le> firstBadIndex \<lparr>left = 4, right = 4, lastGoodIndex = 3, firstBadIndex = 5,
          ignoredItems = [], tested = [3, 5], executed = [''t'', ''t'']\<rparr>"
    using g(2) by simp_all
  from C9_good_below_bad[of "\<lambda>l. True" "\<lparr>testCommand = ''t'', itemsFile = ''f'', nextStateCommand = None\<rparr>"
      "[''a'', ''b'', ''c'', ''d'', ''e'', ''f'', ''g'', ''h'']" "\<lambda>k i. if i = 3 \<or> i = 4 then PASS else FAIL" 2] h
  have one: "lastGoodIndex (state_of (after_outer (\<lambda>l. True) \<lparr>testCommand = ''t'', itemsFile = ''f'', nextStateCommand = None\<rparr>
        [''a'', ''b'', ''c'', ''d'', ''e'', ''f'', ''g'', ''h''] (\<lambda>k i. if i = 3 \<or> i = 4 then PASS else FAIL) 2))
       < firstBadIndex (state_of (after_outer (\<lambda>l. True) \<lparr>testCommand = ''t'', itemsFile = ''f'', nextStateCommand = None\<rparr>
        [''a'', ''b'', ''c'', ''d'', ''e'', ''f'', ''g'', ''h''] (\<lambda>k i. if i = 3 \<or> i = 4 then PASS else FAIL) 2))"
    by blast
  from C9_good_below_bad[of "\<lambda>l. True" "\<lparr>testCommand = ''t'', itemsFile = ''f'', nextStateCommand = None\<rparr>"
      "[''a'', ''b'', ''c'', ''d'', ''e'', ''f'', ''g'', ''h'']" "\<lambda>k i. if i = 3 \<or> i = 4 then PASS else FAIL" 1
      "\<lparr>left = 4, right = 7, lastGoodIndex = 3, firstBadIndex = - 1,
          ignoredItems = [], tested = [3], executed = [''t'']\<rparr>"
      "\<lparr>left = 4, right = 4, lastGoodIndex = 3, firstBadIndex = 5,
          ignoredItems = [], tested = [3, 5], executed = [''t'', ''t'']\<rparr>" 5] g(1) g'
  have two: "lastGoodIndex \<lparr>left = 4, right = 4, lastGoodIndex = 3, firstBadIndex = 5,
          ignoredItems = [], tested = [3, 5], executed = [''t'', ''t'']\<rparr>
       < firstBadIndex \<lparr>left = 4, right = 4, lastGoodIndex = 3, firstBadIndex = 5,
          ignoredItems = [], tested = [3, 5], executed = [''t'', ''t'']\<rparr>"
    by blast
  from h g g'(1) one two show ?thesis by blast
qed

section \<open>C10: no index is tested twice\<close>

text \<open>
  C10. Whatever the answers are: in every state of a run, the one in which an exception
  ended it included, the indices tested so far are pairwise different; after every
  turn of the outer loop they all lie outside the range \<open>[left, right]\<close>, so none of them
  is tested again; the indices tested in the whole run are pairwise different.
\<close>

theorem C10_never_tested_twice:
  "distinct (tested (state_of (after_outer parses options items ask k)))
   \<and> (after_outer parses options items ask k = Inr s \<longrightarrow>
        (\<forall>i\<in>set (tested s). i < left s \<or> right s < i))
   \<and> distinct (tested (state_of (search parses options items ask (initial items))))"
proof -
  have fin: "search parses options items ask (initial items)
           = after_outer parses options items ask (length items)"
    by (rule search_after_outer[OF initial_iterations])
  have "after_outer parses options items ask k = Inr s \<longrightarrow>
        (\<forall>i\<in>set (tested s). i < left s \<or> right s < i)"
    using inv_after_outer[of parses options items ask k s] unfolding inv_def by blast
  with state_of_run[of parses options items ask k]
    state_of_run[of parses options items ask "length items"]
  show ?thesis unfolding fin by blast
qed

text \<open>
  Four items: index 1 is ignored, index 2 fails, and the range left is \<open>[0, 0]\<close>. With
  the next-state command \<open>co @i\<close> and a dax that cannot parse \<open>co c\<close>, the same run ends
  with an exception after the question about index 1.
\<close>

theorem C10_witness:
  "after_outer (\<lambda>l. True) \<lparr>testCommand = ''t'', itemsFile = ''f'', nextStateCommand = None\<rparr>
        [''a'', ''b'', ''c'', ''d''] (\<lambda>k i. if i = 1 then IGNORE else FAIL) 1
       = Inr \<lparr>left = 0, right = 0, lastGoodIndex = - 1, firstBadIndex = 2,
          ignoredItems = [1], tested = [1, 2], executed = [''t'', ''t'']\<rparr>
   \<and> 1 \<in> set (tested \<lparr>left = 0, right = 0, lastGoodIndex = - 1, firstBadIndex = 2,
          ignoredItems = [1], tested = [1, 2], executed = [''t'', ''t'']\<rparr>)
   \<and> right \<lparr>left = 0, right = 0, lastGoodIndex = - 1, firstBadIndex = 2,
          ignoredItems = [1], tested = [1, 2], executed = [''t'', ''t'']\<rparr> < 1
   \<and> distinct (tested (state_of (search (\<lambda>l. True) \<lparr>testCommand = ''t'', itemsFile = ''f'', nextStateCommand = None\<rparr>
        [''a'', ''b'', ''c'', ''d''] (\<lambda>k i. if i = 1 then IGNORE else FAIL) (initial [''a'', ''b'', ''c'', ''d'']))))
   \<and> after_outer (\<lambda>l. l \<noteq> ''co c'') \<lparr>testCommand = ''t'', itemsFile = ''f'', nextStateCommand = Some ''co @i''\<rparr>
        [''a'', ''b'', ''c'', ''d''] (\<lambda>k i. if i = 1 then IGNORE else FAIL) 1
       = Inl (CommandFailed ''co c'', \<lparr>left = 0, right = 3, lastGoodIndex = - 1, firstBadIndex = - 1,
          ignoredItems = [1], tested = [1], executed = [''co b'', ''t'']\<rparr>)
   \<and> distinct (tested (state_of (after_outer (\<lambda>l. l \<noteq> ''co c'') \<lparr>testCommand = ''t'', itemsFile = ''f'', nextStateCommand = Some ''co @i''\<rparr>
        [''a'', ''b'', ''c'', ''d''] (\<lambda>k i. if i = 1 then IGNORE else FAIL) 1)))"
proof -
  have h: "after_outer (\<lambda>l. True) \<lparr>testCommand = ''t'', itemsFile = ''f'', nextStateCommand = None\<rparr>
        [''a'', ''b'', ''c'', ''d''] (\<lambda>k i. if i = 1 then IGNORE else FAIL) 1
       = Inr \<lparr>left = 0, right = 0, lastGoodIndex = - 1, firstBadIndex = 2,
          ignoredItems = [1], tested = [1, 2], executed = [''t'', ''t'']\<rparr>"
    "after_outer (\<lambda>l. l \<noteq> ''co c'') \<lparr>testCommand = ''t'', itemsFile = ''f'', nextStateCommand = Some ''co @i''\<rparr>
        [''a'', ''b'', ''c'', ''d''] (\<lambda>k i. if i = 1 then IGNORE else FAIL) 1
       = Inl (CommandFailed ''co c'', \<lparr>left = 0, right = 3, lastGoodIndex = - 1, firstBadIndex = - 1,
          ignoredItems = [1], tested = [1], executed = [''co b'', ''t'']\<rparr>)"
    by code_simp+
  have m: "1 \<in> set (tested \<lparr>left = 0, right = 0, lastGoodIndex = - 1, firstBadIndex = 2,
          ignoredItems = [1], tested = [1, 2], executed = [''t'', ''t'']\<rparr>)
         \<and> \<not> 1 < left \<lparr>left = 0, right = 0, lastGoodIndex = - 1, firstBadIndex = 2,
          ignoredItems = [1], tested = [1, 2], executed = [''t'', ''t'']\<rparr>"
    by simp
  from C10_never_tested_twice[of "\<lambda>l. True" "\<lparr>testCommand = ''t'', itemsFile = ''f'', nextStateCommand = None\<rparr>"
      "[''a'', ''b'', ''c'', ''d'']" "\<lambda>k i. if i = 1 then IGNORE else FAIL" 1
      "\<lparr>left = 0, right = 0, lastGoodIndex = - 1, firstBadIndex = 2,
          ignoredItems = [1], tested = [1, 2], executed = [''t'', ''t'']\<rparr>"] h(1) m
  have a: "right \<lparr>left = 0, right = 0, lastGoodIndex = - 1, firstBadIndex = 2,
          ignoredItems = [1], tested = [1, 2], executed = [''t'', ''t'']\<rparr> < 1
   \<and> distinct (tested (state_of (search (\<lambda>l. True) \<lparr>testCommand = ''t'', itemsFile = ''f'', nextStateCommand = None\<rparr>
        [''a'', ''b'', ''c'', ''d''] (\<lambda>k i. if i = 1 then IGNORE else FAIL) (initial [''a'', ''b'', ''c'', ''d'']))))"
    by blast
  from C10_never_tested_twice[of "\<lambda>l. l \<noteq> ''co c''" "\<lparr>testCommand = ''t'', itemsFile = ''f'', nextStateCommand = Some ''co @i''\<rparr>"
      "[''a'', ''b'', ''c'', ''d'']" "\<lambda>k i. if i = 1 then IGNORE else FAIL" 1]
  have b: "distinct (tested (state_of (after_outer (\<lambda>l. l \<noteq> ''co c'') \<lparr>testCommand = ''t'', itemsFile = ''f'', nextStateCommand = Some ''co @i''\<rparr>
        [''a'', ''b'', ''c'', ''d''] (\<lambda>k i. if i = 1 then IGNORE else FAIL) 1)))"
    by blast
  from h m a b show ?thesis by blast
qed

section \<open>The commands of a step\<close>

lemma run_commands_ok:
  "list_all parses (command_lines options item) \<Longrightarrow>
   run_commands parses options item lines = Inr (lines @ command_lines options item)"
  by (auto simp add: run_commands_def runCommand_def command_lines_def split: option.splits)

lemma run_commands_fail:
  "\<not> list_all parses (command_lines options item) \<Longrightarrow>
   \<exists>l lines'. run_commands parses options item lines = Inl (CommandFailed l, lines')"
  by (auto simp add: run_commands_def runCommand_def command_lines_def split: option.splits)

section \<open>Runs of ignored items\<close>

text \<open>
  When the answers for \<open>c, ..., c' - 1\<close> are \<open>IGNORE\<close> and dax parses the lines for these
  indices, the inner loop started at \<open>c\<close> reaches \<open>c'\<close> having logged these indices.
\<close>

lemma inner_skip:
  "c \<le> c' \<Longrightarrow> c' \<le> right s + 1 \<Longrightarrow>
   \<forall>j. c \<le> j \<and> j < c' \<longrightarrow> ask (length (tested s) + nat (j - c)) j = IGNORE \<Longrightarrow>
   \<forall>j. c \<le> j \<and> j < c' \<longrightarrow> list_all parses (command_lines options (item_at items j)) \<Longrightarrow>
   inner parses options items ask s c =
     inner parses options items ask
       (s\<lparr>tested := tested s @ [c .. c' - 1],
          executed := executed s
             @ concat (map (\<lambda>i. command_lines options (item_at items i)) [c .. c' - 1]),
          ignoredItems := ignoredItems s @ [c .. c' - 1]\<rparr>) c'"
proof (induction "nat (c' - c)" arbitrary: s c)
  case 0
  then have "c' = c" by simp
  then show ?case by simp
next
  case (Suc n)
  then have lt: "c < c'" and le: "c \<le> right s" by simp_all
  let ?s2 = "s\<lparr>tested := tested s @ [c],
               executed := executed s @ command_lines options (item_at items c),
               ignoredItems := ignoredItems s @ [c]\<rparr>"
  from Suc.prems(3) lt have ig: "ask (length (tested s)) c = IGNORE"
    by (metis add.right_neutral diff_self nat_zero_as_int order_refl nat_0)
  from Suc.prems(4) lt
  have rc: "run_commands parses options (item_at items c) (executed s)
          = Inr (executed s @ command_lines options (item_at items c))"
    by (simp add: run_commands_ok)
  have m: "n = nat (c' - (c + 1))" using Suc.hyps(2) by simp
  have a: "\<forall>j. c + 1 \<le> j \<and> j < c' \<longrightarrow> ask (length (tested ?s2) + nat (j - (c + 1))) j = IGNORE"
  proof (intro allI impI)
    fix j assume j: "c + 1 \<le> j \<and> j < c'"
    then have "c + 1 \<le> j" by simp
    then have "Suc (nat (j - (c + 1))) = nat (j - c)" by linarith
    then have e: "length (tested ?s2) + nat (j - (c + 1)) = length (tested s) + nat (j - c)"
      by simp
    from j Suc.prems(3) have "ask (length (tested s) + nat (j - c)) j = IGNORE"
      by simp
    then show "ask (length (tested ?s2) + nat (j - (c + 1))) j = IGNORE"
      unfolding e .
  qed
  have b: "\<forall>j. c + 1 \<le> j \<and> j < c' \<longrightarrow> list_all parses (command_lines options (item_at items j))"
    using Suc.prems(4) by simp
  have up: "[c .. c' - 1] = c # [c + 1 .. c' - 1]" using lt by (simp add: upto_rec1)
  have "inner parses options items ask s c = inner parses options items ask ?s2 (c + 1)"
    using inner_IGNORE[where ask = ask, OF le rc ig] by simp
  also have "\<dots> = inner parses options items ask
       (?s2\<lparr>tested := tested ?s2 @ [c + 1 .. c' - 1],
          executed := executed ?s2
             @ concat (map (\<lambda>i. command_lines options (item_at items i)) [c + 1 .. c' - 1]),
          ignoredItems := ignoredItems ?s2 @ [c + 1 .. c' - 1]\<rparr>) c'"
    by (rule Suc.hyps(1)[OF m _ _ a b]) (use lt Suc.prems in simp_all)
  finally show ?case by (simp add: up)
qed

section \<open>C1: a FAIL after ignored items\<close>

text \<open>
  C1 (as amended). In an iteration of the outer loop entered with \<open>left \<le> right\<close>, let
  the answers for \<open>mid, ..., c - 1\<close> be \<open>IGNORE\<close> and the answer for \<open>c\<close> be \<open>FAIL\<close>, dax
  having parsed the lines for these indices. The inner loop is left at
  \<open>currentIndex = c\<close> with \<open>firstBadIndex = c\<close> and \<open>right = c - 1\<close>. The check after the
  inner loop, \<open>currentIndex > right\<close>, holds then as well, so at the end of the iteration
  \<open>right = mid - 1\<close>, with \<open>firstBadIndex = c\<close> and \<open>left\<close> and \<open>lastGoodIndex\<close> unchanged;
  \<open>right\<close> is \<open>c - 1\<close> only when \<open>c = mid\<close>, that is when the \<open>FAIL\<close> was the first answer
  of the iteration.
\<close>

theorem C1_fail_narrows_to_mid:
  assumes "left s \<le> right s"
    and "(left s + right s) div 2 \<le> c" and "c \<le> right s"
    and "\<forall>j. (left s + right s) div 2 \<le> j \<and> j < c \<longrightarrow>
           ask (length (tested s) + nat (j - (left s + right s) div 2)) j = IGNORE"
    and "ask (length (tested s) + nat (c - (left s + right s) div 2)) c = FAIL"
    and "\<forall>j. (left s + right s) div 2 \<le> j \<and> j \<le> c \<longrightarrow>
           list_all parses (command_lines options (item_at items j))"
  shows "(\<exists>s1. inner parses options items ask s ((left s + right s) div 2) = Inr (s1, c)
            \<and> firstBadIndex s1 = c \<and> right s1 = c - 1)
       \<and> (\<exists>s'. outer_body parses options items ask s = Inr s'
            \<and> firstBadIndex s' = c
            \<and> right s' = (left s + right s) div 2 - 1
            \<and> left s' = left s
            \<and> lastGoodIndex s' = lastGoodIndex s
            \<and> (right s' = c - 1 \<longleftrightarrow> c = (left s + right s) div 2))"
proof -
  define mid where "mid = (left s + right s) div 2"
  define s1 where "s1 = s\<lparr>tested := tested s @ [mid .. c - 1],
          executed := executed s
             @ concat (map (\<lambda>i. command_lines options (item_at items i)) [mid .. c - 1]),
          ignoredItems := ignoredItems s @ [mid .. c - 1]\<rparr>"
  have skip: "inner parses options items ask s mid = inner parses options items ask s1 c"
    unfolding s1_def
    by (rule inner_skip) (use assms in \<open>simp_all add: mid_def\<close>)
  have len: "length (tested s1) = length (tested s) + nat (c - mid)"
    by (simp add: s1_def)
  have rc: "run_commands parses options (item_at items c) (executed s1)
          = Inr (executed s1 @ command_lines options (item_at items c))"
    using assms(2,6) by (simp add: run_commands_ok)
  have "inner parses options items ask s1 c =
     Inr (s1\<lparr>tested := tested s1 @ [c],
         executed := executed s1 @ command_lines options (item_at items c),
         firstBadIndex := c, right := c - 1\<rparr>, c)"
    by (rule inner_FAIL[where ask = ask, OF _ rc])
       (use assms len in \<open>simp_all add: mid_def s1_def\<close>)
  with skip have eq: "inner parses options items ask s mid =
     Inr (s1\<lparr>tested := tested s1 @ [c],
         executed := executed s1 @ command_lines options (item_at items c),
         firstBadIndex := c, right := c - 1\<rparr>, c)"
    by simp
  show ?thesis
    unfolding mid_def[symmetric]
    by (simp add: outer_body_def Let_def mid_def[symmetric] eq) (auto simp add: s1_def)
qed

text \<open>Four items from the initial state: \<open>mid = 1\<close> is ignored and index 2 fails.\<close>

theorem C1_witness:
  "left (initial [''a'', ''b'', ''c'', ''d'']) \<le> right (initial [''a'', ''b'', ''c'', ''d''])
   \<and> (\<lambda>(k::nat) (i::int). if i = 1 then IGNORE else FAIL) 0 1 = IGNORE
   \<and> (\<lambda>(k::nat) (i::int). if i = 1 then IGNORE else FAIL) 1 2 = FAIL
   \<and> inner (\<lambda>l. True) \<lparr>testCommand = ''t'', itemsFile = ''f'', nextStateCommand = None\<rparr>
        [''a'', ''b'', ''c'', ''d''] (\<lambda>k i. if i = 1 then IGNORE else FAIL) (initial [''a'', ''b'', ''c'', ''d'']) 1
       = Inr (\<lparr>left = 0, right = 1, lastGoodIndex = - 1, firstBadIndex = 2,
          ignoredItems = [1], tested = [1, 2], executed = [''t'', ''t'']\<rparr>, 2)
   \<and> outer_body (\<lambda>l. True) \<lparr>testCommand = ''t'', itemsFile = ''f'', nextStateCommand = None\<rparr>
        [''a'', ''b'', ''c'', ''d''] (\<lambda>k i. if i = 1 then IGNORE else FAIL) (initial [''a'', ''b'', ''c'', ''d''])
       = Inr \<lparr>left = 0, right = 0, lastGoodIndex = - 1, firstBadIndex = 2,
          ignoredItems = [1], tested = [1, 2], executed = [''t'', ''t'']\<rparr>"
proof -
  have h: "left (initial [''a'', ''b'', ''c'', ''d'']) \<le> right (initial [''a'', ''b'', ''c'', ''d''])"
      "(left (initial [''a'', ''b'', ''c'', ''d'']) + right (initial [''a'', ''b'', ''c'', ''d''])) div 2 \<le> 2"
      "2 \<le> right (initial [''a'', ''b'', ''c'', ''d''])"
      "(left (initial [''a'', ''b'', ''c'', ''d'']) + right (initial [''a'', ''b'', ''c'', ''d''])) div 2 = 1"
      "tested (initial [''a'', ''b'', ''c'', ''d'']) = []"
    by (simp_all add: initial_def)
  have a: "\<forall>j. (left (initial [''a'', ''b'', ''c'', ''d'']) + right (initial [''a'', ''b'', ''c'', ''d''])) div 2 \<le> j \<and> j < 2 \<longrightarrow>
           (\<lambda>(k::nat) (i::int). if i = 1 then IGNORE else FAIL) (length (tested (initial [''a'', ''b'', ''c'', ''d'']))
                + nat (j - (left (initial [''a'', ''b'', ''c'', ''d'']) + right (initial [''a'', ''b'', ''c'', ''d''])) div 2)) j = IGNORE"
    unfolding h by auto
  have f: "(\<lambda>(k::nat) (i::int). if i = 1 then IGNORE else FAIL) (length (tested (initial [''a'', ''b'', ''c'', ''d'']))
                + nat (2 - (left (initial [''a'', ''b'', ''c'', ''d'']) + right (initial [''a'', ''b'', ''c'', ''d''])) div 2)) 2 = FAIL"
    unfolding h by simp
  have p: "\<forall>j. (left (initial [''a'', ''b'', ''c'', ''d'']) + right (initial [''a'', ''b'', ''c'', ''d''])) div 2 \<le> j \<and> j \<le> 2 \<longrightarrow>
           list_all (\<lambda>l. True) (command_lines \<lparr>testCommand = ''t'', itemsFile = ''f'', nextStateCommand = None\<rparr>
             (item_at [''a'', ''b'', ''c'', ''d''] j))"
    by (simp add: list_all_iff)
  from C1_fail_narrows_to_mid[OF h(1) h(2) h(3) a f p]
  obtain s1 s' where
      "inner (\<lambda>l. True) \<lparr>testCommand = ''t'', itemsFile = ''f'', nextStateCommand = None\<rparr>
        [''a'', ''b'', ''c'', ''d''] (\<lambda>k i. if i = 1 then IGNORE else FAIL) (initial [''a'', ''b'', ''c'', ''d'']) 1
       = Inr (s1, 2)"
      "outer_body (\<lambda>l. True) \<lparr>testCommand = ''t'', itemsFile = ''f'', nextStateCommand = None\<rparr>
        [''a'', ''b'', ''c'', ''d''] (\<lambda>k i. if i = 1 then IGNORE else FAIL) (initial [''a'', ''b'', ''c'', ''d''])
       = Inr s'"
    unfolding h by blast
  moreover have "inner (\<lambda>l. True) \<lparr>testCommand = ''t'', itemsFile = ''f'', nextStateCommand = None\<rparr>
        [''a'', ''b'', ''c'', ''d''] (\<lambda>k i. if i = 1 then IGNORE else FAIL) (initial [''a'', ''b'', ''c'', ''d'']) 1
       = Inr (\<lparr>left = 0, right = 1, lastGoodIndex = - 1, firstBadIndex = 2,
          ignoredItems = [1], tested = [1, 2], executed = [''t'', ''t'']\<rparr>, 2)"
    "outer_body (\<lambda>l. True) \<lparr>testCommand = ''t'', itemsFile = ''f'', nextStateCommand = None\<rparr>
        [''a'', ''b'', ''c'', ''d''] (\<lambda>k i. if i = 1 then IGNORE else FAIL) (initial [''a'', ''b'', ''c'', ''d''])
       = Inr \<lparr>left = 0, right = 0, lastGoodIndex = - 1, firstBadIndex = 2,
          ignoredItems = [1], tested = [1, 2], executed = [''t'', ''t'']\<rparr>"
    by code_simp+
  ultimately show ?thesis using h(1) by simp
qed

text \<open>
  C1 as the specification has it asks for \<open>right = cursor - 1\<close> at the end of the
  iteration. In the same run the iteration ends with \<open>firstBadIndex = 2\<close> and
  \<open>right = 0\<close>, not 1.
\<close>

theorem C1_counterexample:
  "(\<lambda>(k::nat) (i::int). if i = 1 then IGNORE else FAIL) 1 2 = FAIL
   \<and> outer_body (\<lambda>l. True) \<lparr>testCommand = ''t'', itemsFile = ''f'', nextStateCommand = None\<rparr>
        [''a'', ''b'', ''c'', ''d''] (\<lambda>k i. if i = 1 then IGNORE else FAIL) (initial [''a'', ''b'', ''c'', ''d''])
       = Inr \<lparr>left = 0, right = 0, lastGoodIndex = - 1, firstBadIndex = 2,
          ignoredItems = [1], tested = [1, 2], executed = [''t'', ''t'']\<rparr>
   \<and> right \<lparr>left = 0, right = 0, lastGoodIndex = - 1, firstBadIndex = 2,
          ignoredItems = [1], tested = [1, 2], executed = [''t'', ''t'']\<rparr>
       \<noteq> firstBadIndex \<lparr>left = 0, right = 0, lastGoodIndex = - 1, firstBadIndex = 2,
          ignoredItems = [1], tested = [1, 2], executed = [''t'', ''t'']\<rparr> - 1"
  by code_simp

section \<open>C2: the commands run for a tested item\<close>

text \<open>
  C2. The specification asks for the test command to be run with every \<open>@i\<close> replaced
  by the item, as the next-state command is. One item \<open>x\<close>, the next-state command
  \<open>n @i\<close>, the test command \<open>t @i\<close> and the answer \<open>PASS\<close>: the run executes \<open>n x\<close> and then
  \<open>t @i\<close>, where the substitution would give \<open>t x\<close>. \<open>bisect\<close> calls
  \<open>runCommand(options.testCommand)\<close> with no item.
\<close>

theorem C2_test_command_not_substituted:
  "search (\<lambda>l. True)
       \<lparr>testCommand = ''t @i'', itemsFile = ''f'', nextStateCommand = Some ''n @i''\<rparr>
       [''x''] (\<lambda>k i. PASS) (initial [''x''])
     = Inr \<lparr>left = 1, right = 0, lastGoodIndex = 0, firstBadIndex = - 1,
            ignoredItems = [], tested = [0], executed = [''n x'', ''t @i'']\<rparr>
   \<and> finalCommand ''n @i'' (item_at [''x''] 0) = ''n x''
   \<and> finalCommand ''t @i'' (item_at [''x''] 0) = ''t x''
   \<and> finalCommand ''t @i'' None = ''t @i''"
  by code_simp

section \<open>C6: the boundary lines of the report\<close>






section \<open>C4: every answer is IGNORE\<close>

text \<open>
  With no answer but \<open>IGNORE\<close> each turn of the outer loop tests \<open>mid, ..., right\<close> and
  goes on with \<open>[left, mid - 1]\<close>: the loop tests every index of its range once, unless
  dax cannot parse a line, which ends the run.
\<close>

lemma outer_all_ignored:
  assumes "\<forall>k i. ask k i = IGNORE" and "left s \<le> right s"
    and "\<forall>j. (left s + right s) div 2 \<le> j \<and> j \<le> right s \<longrightarrow>
           list_all parses (command_lines options (item_at items j))"
  shows "\<exists>s'. outer_body parses options items ask s = Inr s'
       \<and> left s' = left s \<and> right s' = (left s + right s) div 2 - 1
       \<and> lastGoodIndex s' = lastGoodIndex s \<and> firstBadIndex s' = firstBadIndex s
       \<and> tested s' = tested s @ [(left s + right s) div 2 .. right s]
       \<and> ignoredItems s' = ignoredItems s @ [(left s + right s) div 2 .. right s]"
proof -
  define mid where "mid = (left s + right s) div 2"
  have mb: "mid \<le> right s + 1" using assms(2) by (simp add: mid_def)
  have "inner parses options items ask s mid =
     inner parses options items ask
       (s\<lparr>tested := tested s @ [mid .. right s + 1 - 1],
          executed := executed s
             @ concat (map (\<lambda>i. command_lines options (item_at items i)) [mid .. right s + 1 - 1]),
          ignoredItems := ignoredItems s @ [mid .. right s + 1 - 1]\<rparr>) (right s + 1)"
    by (rule inner_skip) (use assms mb in \<open>simp_all add: mid_def\<close>)
  then have "inner parses options items ask s mid =
     Inr (s\<lparr>tested := tested s @ [mid .. right s],
          executed := executed s
             @ concat (map (\<lambda>i. command_lines options (item_at items i)) [mid .. right s]),
          ignoredItems := ignoredItems s @ [mid .. right s]\<rparr>, right s + 1)"
    by (simp add: inner_stop)
  then show ?thesis
    by (simp add: outer_body_def Let_def mid_def[symmetric])
qed

lemma search_all_ignored:
  "\<forall>k i. ask k i = IGNORE \<Longrightarrow> left s \<le> right s + 1 \<Longrightarrow>
   \<forall>j. left s \<le> j \<and> j \<le> right s \<longrightarrow>
           list_all parses (command_lines options (item_at items j)) \<Longrightarrow>
     \<exists>f xs. search parses options items ask s = Inr f
        \<and> tested f = tested s @ xs \<and> ignoredItems f = ignoredItems s @ xs
        \<and> distinct xs \<and> set xs = {left s .. right s}
        \<and> lastGoodIndex f = lastGoodIndex s \<and> firstBadIndex f = firstBadIndex s"
proof (induction parses options items ask s rule: search.induct)
  case (1 parses options items ask s)
  show ?case
  proof (cases "left s \<le> right s")
    case False
    with "1.prems"(2) show ?thesis by (simp add: search.simps[of _ _ _ _ s])
  next
    case True
    let ?mid = "(left s + right s) div 2"
    note mb = mid_bounds[OF True]
    have "\<forall>j. ?mid \<le> j \<and> j \<le> right s \<longrightarrow>
           list_all parses (command_lines options (item_at items j))"
      using "1.prems"(3) mb by auto
    from outer_all_ignored[OF "1.prems"(1) True this]
    obtain s' where s': "outer_body parses options items ask s = Inr s'"
      and ex: "left s' = left s" "right s' = ?mid - 1"
        "lastGoodIndex s' = lastGoodIndex s" "firstBadIndex s' = firstBadIndex s"
        "tested s' = tested s @ [?mid .. right s]"
        "ignoredItems s' = ignoredItems s @ [?mid .. right s]"
      by blast
    have r: "left s' \<le> right s' + 1" using ex mb by simp
    have p: "\<forall>j. left s' \<le> j \<and> j \<le> right s' \<longrightarrow>
           list_all parses (command_lines options (item_at items j))"
      using "1.prems"(3) ex mb by auto
    from "1.IH"[OF True s' "1.prems"(1) r p] obtain f xs where xs:
        "search parses options items ask s' = Inr f"
        "tested f = tested s' @ xs" "ignoredItems f = ignoredItems s' @ xs"
        "distinct xs" "set xs = {left s' .. right s'}"
        "lastGoodIndex f = lastGoodIndex s'" "firstBadIndex f = firstBadIndex s'"
      by blast
    have se: "search parses options items ask s = Inr f"
      using True s' xs(1) by (simp add: search.simps[of _ _ _ _ s])
    have un: "{?mid .. right s} \<union> {left s .. ?mid - 1} = {left s .. right s}"
      using mb by auto
    show ?thesis
      by (intro exI[of _ f] exI[of _ "[?mid .. right s] @ xs"]) (use se xs ex un in auto)
  qed
qed

lemma inner_all_ignored_abort:
  "\<forall>k i. ask k i = IGNORE \<Longrightarrow>
   c \<le> j \<Longrightarrow> j \<le> right s \<Longrightarrow>
   \<not> list_all parses (command_lines options (item_at items j)) \<Longrightarrow>
   \<exists>l sa. inner parses options items ask s c = Inl (CommandFailed l, sa)"
proof (induction "nat (j - c)" arbitrary: s c)
  case 0
  then have jc: "j = c" by simp
  from run_commands_fail[OF "0.prems"(4), of "executed s"] obtain l lines'
    where "run_commands parses options (item_at items c) (executed s)
             = Inl (CommandFailed l, lines')"
    unfolding jc by blast
  from inner_abort[where ask = ask, OF _ this] "0.prems"(3) jc show ?case by blast
next
  case (Suc n)
  then have lt: "c < j" and le: "c \<le> right s" by simp_all
  show ?case
  proof (cases "list_all parses (command_lines options (item_at items c))")
    case False
    from run_commands_fail[OF False, of "executed s"] obtain l lines'
      where "run_commands parses options (item_at items c) (executed s)
               = Inl (CommandFailed l, lines')"
      by blast
    from inner_abort[where ask = ask, OF le this] show ?thesis by blast
  next
    case True
    let ?s2 = "s\<lparr>tested := tested s @ [c],
                 executed := executed s @ command_lines options (item_at items c),
                 ignoredItems := ignoredItems s @ [c]\<rparr>"
    have rc: "run_commands parses options (item_at items c) (executed s)
            = Inr (executed s @ command_lines options (item_at items c))"
      using True by (simp add: run_commands_ok)
    from Suc.prems(1) have ig: "ask (length (tested s)) c = IGNORE" by simp
    have eq: "inner parses options items ask s c = inner parses options items ask ?s2 (c + 1)"
      using inner_IGNORE[where ask = ask, OF le rc ig] by simp
    have m: "n = nat (j - (c + 1))" using Suc.hyps(2) by simp
    from Suc.hyps(1)[OF m Suc.prems(1), of ?s2] lt Suc.prems(3,4)
    show ?thesis unfolding eq by simp
  qed
qed

lemma search_all_ignored_abort:
  "\<forall>k i. ask k i = IGNORE \<Longrightarrow>
   left s \<le> j \<Longrightarrow> j \<le> right s \<Longrightarrow>
   \<not> list_all parses (command_lines options (item_at items j)) \<Longrightarrow>
   \<exists>l sa. search parses options items ask s = Inl (CommandFailed l, sa)"
proof (induction parses options items ask s rule: search.induct)
  case (1 parses options items ask s)
  from "1.prems"(2,3) have True: "left s \<le> right s" by simp
  let ?mid = "(left s + right s) div 2"
  note mb = mid_bounds[OF True]
  show ?case
  proof (cases "\<exists>j'. ?mid \<le> j' \<and> j' \<le> right s
                  \<and> \<not> list_all parses (command_lines options (item_at items j'))")
    case True
    then obtain j' where j': "?mid \<le> j'" "j' \<le> right s"
        "\<not> list_all parses (command_lines options (item_at items j'))"
      by blast
    from inner_all_ignored_abort[OF "1.prems"(1) j'] obtain l sa
      where "inner parses options items ask s ?mid = Inl (CommandFailed l, sa)"
      by blast
    then have "outer_body parses options items ask s = Inl (CommandFailed l, sa)"
      by (simp add: outer_body_def Let_def)
    with \<open>left s \<le> right s\<close> show ?thesis
      by (simp add: search.simps[of _ _ _ _ s])
  next
    case False
    then have all: "\<forall>j. ?mid \<le> j \<and> j \<le> right s \<longrightarrow>
           list_all parses (command_lines options (item_at items j))"
      by blast
    from outer_all_ignored[OF "1.prems"(1) True all]
    obtain s' where s': "outer_body parses options items ask s = Inr s'"
      and ex: "left s' = left s" "right s' = ?mid - 1"
      by blast
    from all "1.prems"(3,4) have "j < ?mid" by (meson not_le)
    with ex "1.prems"(2) have "left s' \<le> j" "j \<le> right s'" by simp_all
    from "1.IH"[OF True s' "1.prems"(1) this "1.prems"(4)] True s'
    show ?thesis by (simp add: search.simps[of _ _ _ _ s])
  qed
qed

text \<open>
  C4. For at least one item, no answer but \<open>IGNORE\<close>, and lines that dax parses for
  every item: the loop ends, after at most \<open>N\<close> turns of the outer loop; every index
  \<open>0, ..., N - 1\<close> is tested, each once; \<open>ignoredItems\<close> holds all of them;
  \<open>lastGoodIndex\<close> and \<open>firstBadIndex\<close> are unset; and the report lists the ignored items
  and says that no good item and no bad item was found. When dax cannot parse a line
  for some item, the run ends with the exception instead, and prints no report.
\<close>

theorem C4_all_ignored:
  assumes "items \<noteq> []" and "\<forall>k i. ask k i = IGNORE"
  shows "((\<forall>j. 0 \<le> j \<and> j < int (length items) \<longrightarrow>
             list_all parses (command_lines options (item_at items j))) \<longrightarrow>
          (\<exists>f. search parses options items ask (initial items) = Inr f
             \<and> distinct (tested f)
             \<and> set (tested f) = {0 .. int (length items) - 1}
             \<and> length (tested f) = length items
             \<and> ignoredItems f = tested f
             \<and> lastGoodIndex f = - 1
             \<and> firstBadIndex f = - 1
             \<and> bisect parses options items ask =
                 Inr (f, [Separator, Complete,
                          Ignored (length items)
                            (map (\<lambda>i. (show_item items i, i + 1)) (ignoredItems f)),
                          NoGood, NoBad])))
       \<and> (\<not> (\<forall>j. 0 \<le> j \<and> j < int (length items) \<longrightarrow>
             list_all parses (command_lines options (item_at items j))) \<longrightarrow>
          (\<exists>l. bisect parses options items ask = Inl (CommandFailed l)))
       \<and> outer_iterations parses options items ask (initial items) \<le> length items"
proof (intro conjI impI)
  assume ok: "\<forall>j. 0 \<le> j \<and> j < int (length items) \<longrightarrow>
             list_all parses (command_lines options (item_at items j))"
  have r: "left (initial items) \<le> right (initial items) + 1" by (simp add: initial_def)
  have p: "\<forall>j. left (initial items) \<le> j \<and> j \<le> right (initial items) \<longrightarrow>
           list_all parses (command_lines options (item_at items j))"
    using ok by (simp add: initial_def)
  from search_all_ignored[OF assms(2) r p]
  obtain f xs where f: "search parses options items ask (initial items) = Inr f"
    and xs: "tested f = xs" "ignoredItems f = xs" "distinct xs"
      "set xs = {0 .. int (length items) - 1}"
      "lastGoodIndex f = - 1" "firstBadIndex f = - 1"
    by (auto simp add: initial_def)
  have "card (set xs) = length items" unfolding xs(4) by simp
  with xs(3) have len: "length xs = length items" by (simp add: distinct_card)
  from len assms(1) have ne: "xs \<noteq> []" by auto
  have "bisect parses options items ask =
           Inr (f, [Separator, Complete,
                 Ignored (length items) (map (\<lambda>i. (show_item items i, i + 1)) (ignoredItems f)),
                 NoGood, NoBad])"
    using assms(1) f xs len ne by (simp add: bisect_def report_def boundary_def Let_def)
  with f xs len
  show "\<exists>f. search parses options items ask (initial items) = Inr f
             \<and> distinct (tested f)
             \<and> set (tested f) = {0 .. int (length items) - 1}
             \<and> length (tested f) = length items
             \<and> ignoredItems f = tested f
             \<and> lastGoodIndex f = - 1
             \<and> firstBadIndex f = - 1
             \<and> bisect parses options items ask =
                 Inr (f, [Separator, Complete,
                          Ignored (length items)
                            (map (\<lambda>i. (show_item items i, i + 1)) (ignoredItems f)),
                          NoGood, NoBad])"
    by (intro exI[of _ f]) simp
next
  assume "\<not> (\<forall>j. 0 \<le> j \<and> j < int (length items) \<longrightarrow>
             list_all parses (command_lines options (item_at items j)))"
  then obtain j where j: "0 \<le> j" "j < int (length items)"
      "\<not> list_all parses (command_lines options (item_at items j))"
    by blast
  then have "left (initial items) \<le> j" "j \<le> right (initial items)"
    by (simp_all add: initial_def)
  from search_all_ignored_abort[OF assms(2) this j(3)] obtain l sa
    where "search parses options items ask (initial items) = Inl (CommandFailed l, sa)"
    by blast
  with assms(1) show "\<exists>l. bisect parses options items ask = Inl (CommandFailed l)"
    by (simp add: bisect_def)
next
  show "outer_iterations parses options items ask (initial items) \<le> length items"
    by (rule initial_iterations)
qed

text \<open>
  Four items and lines that dax parses: the indices are tested in the order 1, 2, 3, 0.
  Three items \<open>a\<close>, \<open>it's\<close>, \<open>c\<close> with the next-state command \<open>echo @i\<close> and a dax that
  cannot parse \<open>echo it's\<close>: the first test, at index 1, ends the run.
\<close>

theorem C4_witness:
  "[''a'', ''b'', ''c'', ''d''] \<noteq> []
   \<and> search (\<lambda>l. True) \<lparr>testCommand = ''t'', itemsFile = ''f'', nextStateCommand = None\<rparr>
        [''a'', ''b'', ''c'', ''d''] (\<lambda>k i. IGNORE) (initial [''a'', ''b'', ''c'', ''d''])
       = Inr \<lparr>left = 0, right = - 1, lastGoodIndex = - 1, firstBadIndex = - 1,
          ignoredItems = [1, 2, 3, 0], tested = [1, 2, 3, 0],
          executed = [''t'', ''t'', ''t'', ''t'']\<rparr>
   \<and> set (tested \<lparr>left = 0, right = - 1, lastGoodIndex = - 1, firstBadIndex = - 1,
          ignoredItems = [1, 2, 3, 0], tested = [1, 2, 3, 0],
          executed = [''t'', ''t'', ''t'', ''t'']\<rparr>) = {0 .. int (length [''a'', ''b'', ''c'', ''d'']) - 1}
   \<and> bisect (\<lambda>l. True) \<lparr>testCommand = ''t'', itemsFile = ''f'', nextStateCommand = None\<rparr>
        [''a'', ''b'', ''c'', ''d''] (\<lambda>k i. IGNORE)
       = Inr (\<lparr>left = 0, right = - 1, lastGoodIndex = - 1, firstBadIndex = - 1,
          ignoredItems = [1, 2, 3, 0], tested = [1, 2, 3, 0],
          executed = [''t'', ''t'', ''t'', ''t'']\<rparr>,
           [Separator, Complete,
          Ignored 4 [(''b'', 2), (''c'', 3), (''d'', 4), (''a'', 1)], NoGood, NoBad])
   \<and> [''a'', ''it'' @ [CHR 0x27] @ ''s'', ''c''] \<noteq> []
   \<and> \<not> list_all (\<lambda>l. l \<noteq> ''echo it'' @ [CHR 0x27] @ ''s'')
          (command_lines \<lparr>testCommand = ''t'', itemsFile = ''f'', nextStateCommand = Some ''echo @i''\<rparr>
            (item_at [''a'', ''it'' @ [CHR 0x27] @ ''s'', ''c''] 1))
   \<and> bisect (\<lambda>l. l \<noteq> ''echo it'' @ [CHR 0x27] @ ''s'')
        \<lparr>testCommand = ''t'', itemsFile = ''f'', nextStateCommand = Some ''echo @i''\<rparr>
        [''a'', ''it'' @ [CHR 0x27] @ ''s'', ''c''] (\<lambda>k i. IGNORE)
       = Inl (CommandFailed (''echo it'' @ [CHR 0x27] @ ''s''))"
proof -
  have h1: "[''a'', ''b'', ''c'', ''d''] \<noteq> []" by simp
  have h2: "\<forall>k i. (\<lambda>(k::nat) (i::int). IGNORE) k i = IGNORE" by simp
  have h3: "\<forall>j. 0 \<le> j \<and> j < int (length [''a'', ''b'', ''c'', ''d'']) \<longrightarrow>
             list_all (\<lambda>l. True) (command_lines \<lparr>testCommand = ''t'', itemsFile = ''f'', nextStateCommand = None\<rparr>
               (item_at [''a'', ''b'', ''c'', ''d''] j))"
    by (simp add: list_all_iff)
  have e: "search (\<lambda>l. True) \<lparr>testCommand = ''t'', itemsFile = ''f'', nextStateCommand = None\<rparr>
        [''a'', ''b'', ''c'', ''d''] (\<lambda>k i. IGNORE) (initial [''a'', ''b'', ''c'', ''d''])
       = Inr \<lparr>left = 0, right = - 1, lastGoodIndex = - 1, firstBadIndex = - 1,
          ignoredItems = [1, 2, 3, 0], tested = [1, 2, 3, 0],
          executed = [''t'', ''t'', ''t'', ''t'']\<rparr>"
    by code_simp
  from C4_all_ignored[OF h1 h2, of "\<lambda>l. True" "\<lparr>testCommand = ''t'', itemsFile = ''f'', nextStateCommand = None\<rparr>"] h3
  obtain f where f: "search (\<lambda>l. True) \<lparr>testCommand = ''t'', itemsFile = ''f'', nextStateCommand = None\<rparr>
        [''a'', ''b'', ''c'', ''d''] (\<lambda>k i. IGNORE) (initial [''a'', ''b'', ''c'', ''d'']) = Inr f"
      "set (tested f) = {0 .. int (length [''a'', ''b'', ''c'', ''d'']) - 1}"
      "bisect (\<lambda>l. True) \<lparr>testCommand = ''t'', itemsFile = ''f'', nextStateCommand = None\<rparr>
        [''a'', ''b'', ''c'', ''d''] (\<lambda>k i. IGNORE) =
                 Inr (f, [Separator, Complete,
                          Ignored (length [''a'', ''b'', ''c'', ''d''])
                            (map (\<lambda>i. (show_item [''a'', ''b'', ''c'', ''d''] i, i + 1)) (ignoredItems f)),
                          NoGood, NoBad])"
    by blast
  from f(1) e have ff: "f = \<lparr>left = 0, right = - 1, lastGoodIndex = - 1, firstBadIndex = - 1,
          ignoredItems = [1, 2, 3, 0], tested = [1, 2, 3, 0],
          executed = [''t'', ''t'', ''t'', ''t'']\<rparr>" by simp
  have v: "map (\<lambda>i. (show_item [''a'', ''b'', ''c'', ''d''] i, i + 1)) [1, 2, 3, 0]
         = [(''b'', 2), (''c'', 3), (''d'', 4), (''a'', 1)]"
    by code_simp
  have a: "set (tested \<lparr>left = 0, right = - 1, lastGoodIndex = - 1, firstBadIndex = - 1,
          ignoredItems = [1, 2, 3, 0], tested = [1, 2, 3, 0],
          executed = [''t'', ''t'', ''t'', ''t'']\<rparr>) = {0 .. int (length [''a'', ''b'', ''c'', ''d'']) - 1}"
    "bisect (\<lambda>l. True) \<lparr>testCommand = ''t'', itemsFile = ''f'', nextStateCommand = None\<rparr>
        [''a'', ''b'', ''c'', ''d''] (\<lambda>k i. IGNORE)
       = Inr (\<lparr>left = 0, right = - 1, lastGoodIndex = - 1, firstBadIndex = - 1,
          ignoredItems = [1, 2, 3, 0], tested = [1, 2, 3, 0],
          executed = [''t'', ''t'', ''t'', ''t'']\<rparr>,
           [Separator, Complete,
          Ignored 4 [(''b'', 2), (''c'', 3), (''d'', 4), (''a'', 1)], NoGood, NoBad])"
    using f(2,3) v unfolding ff by simp_all
  have g1: "[''a'', ''it'' @ [CHR 0x27] @ ''s'', ''c''] \<noteq> []" by simp
  have g3: "\<not> list_all (\<lambda>l. l \<noteq> ''echo it'' @ [CHR 0x27] @ ''s'')
          (command_lines \<lparr>testCommand = ''t'', itemsFile = ''f'', nextStateCommand = Some ''echo @i''\<rparr>
            (item_at [''a'', ''it'' @ [CHR 0x27] @ ''s'', ''c''] 1))"
    by code_simp
  then have "\<not> (\<forall>j. 0 \<le> j \<and> j < int (length [''a'', ''it'' @ [CHR 0x27] @ ''s'', ''c'']) \<longrightarrow>
             list_all (\<lambda>l. l \<noteq> ''echo it'' @ [CHR 0x27] @ ''s'')
               (command_lines \<lparr>testCommand = ''t'', itemsFile = ''f'', nextStateCommand = Some ''echo @i''\<rparr>
                 (item_at [''a'', ''it'' @ [CHR 0x27] @ ''s'', ''c''] j)))"
    by (intro notI) (drule spec[of _ 1], simp)
  with C4_all_ignored[OF g1 h2, of "\<lambda>l. l \<noteq> ''echo it'' @ [CHR 0x27] @ ''s''"
      "\<lparr>testCommand = ''t'', itemsFile = ''f'', nextStateCommand = Some ''echo @i''\<rparr>"]
  obtain l where "bisect (\<lambda>l. l \<noteq> ''echo it'' @ [CHR 0x27] @ ''s'')
        \<lparr>testCommand = ''t'', itemsFile = ''f'', nextStateCommand = Some ''echo @i''\<rparr>
        [''a'', ''it'' @ [CHR 0x27] @ ''s'', ''c''] (\<lambda>k i. IGNORE) = Inl (CommandFailed l)"
    by blast
  moreover have "bisect (\<lambda>l. l \<noteq> ''echo it'' @ [CHR 0x27] @ ''s'')
        \<lparr>testCommand = ''t'', itemsFile = ''f'', nextStateCommand = Some ''echo @i''\<rparr>
        [''a'', ''it'' @ [CHR 0x27] @ ''s'', ''c''] (\<lambda>k i. IGNORE)
       = Inl (CommandFailed (''echo it'' @ [CHR 0x27] @ ''s''))"
    by code_simp
  ultimately show ?thesis using h1 e a g1 g3 by blast
qed

section \<open>C3: a run without IGNORE\<close>

text \<open>
  When the answer for \<open>mid\<close> is \<open>PASS\<close> or \<open>FAIL\<close> the iteration of the outer loop tests
  \<open>mid\<close> only, and halves the range; when a command for \<open>mid\<close> throws, nothing is tested.
\<close>

lemma outer_body_PASS:
  assumes "left s \<le> right s"
    and "run_commands parses options (item_at items ((left s + right s) div 2)) (executed s)
           = Inr lines"
    and "ask (length (tested s)) ((left s + right s) div 2) = PASS"
  shows "outer_body parses options items ask s =
     Inr (s\<lparr>tested := tested s @ [(left s + right s) div 2], executed := lines,
            lastGoodIndex := (left s + right s) div 2, left := (left s + right s) div 2 + 1\<rparr>)"
proof -
  from mid_bounds[OF assms(1)] have "(left s + right s) div 2 \<le> right s" by simp
  from inner_PASS[where ask = ask, OF this assms(2) assms(3)] this show ?thesis
    by (simp add: outer_body_def Let_def)
qed

lemma outer_body_FAIL:
  assumes "left s \<le> right s"
    and "run_commands parses options (item_at items ((left s + right s) div 2)) (executed s)
           = Inr lines"
    and "ask (length (tested s)) ((left s + right s) div 2) = FAIL"
  shows "outer_body parses options items ask s =
     Inr (s\<lparr>tested := tested s @ [(left s + right s) div 2], executed := lines,
            firstBadIndex := (left s + right s) div 2, right := (left s + right s) div 2 - 1\<rparr>)"
proof -
  from mid_bounds[OF assms(1)] have "(left s + right s) div 2 \<le> right s" by simp
  from inner_FAIL[where ask = ask, OF this assms(2) assms(3)] show ?thesis
    by (simp add: outer_body_def Let_def)
qed

lemma outer_body_throws:
  assumes "left s \<le> right s"
    and "run_commands parses options (item_at items ((left s + right s) div 2)) (executed s)
           = Inl (e, lines)"
  shows "outer_body parses options items ask s = Inl (e, s\<lparr>executed := lines\<rparr>)"
proof -
  from mid_bounds[OF assms(1)] have "(left s + right s) div 2 \<le> right s" by simp
  from inner_abort[where ask = ask, OF this assms(2)] show ?thesis
    by (simp add: outer_body_def Let_def)
qed

text \<open>A range of fewer than \<open>2 ^ n\<close> indices is searched with at most \<open>n\<close> tests.\<close>

lemma clean_tests_bound:
  "\<forall>k i. ask k i \<noteq> IGNORE \<Longrightarrow> right s - left s + 1 < 2 ^ n \<Longrightarrow>
   length (tested (state_of (search parses options items ask s))) \<le> length (tested s) + n"
proof (induction n arbitrary: s)
  case 0
  then have "\<not> left s \<le> right s" by simp
  then show ?case by (simp add: search.simps[of _ _ _ _ s] state_of_def)
next
  case (Suc n)
  show ?case
  proof (cases "left s \<le> right s")
    case False
    then show ?thesis by (simp add: search.simps[of _ _ _ _ s] state_of_def)
  next
    case True
    let ?mid = "(left s + right s) div 2"
    from Suc.prems(2) have sz: "right s - left s + 1 < 2 * 2 ^ n" by simp
    show ?thesis
    proof (cases "run_commands parses options (item_at items ?mid) (executed s)")
      case (Inl x)
      obtain e lines where x: "x = (e, lines)" by (cases x)
      from outer_body_throws[where ask = ask, OF True Inl[unfolded x]] True
      show ?thesis by (simp add: search.simps[of _ _ _ _ s] state_of_def)
    next
      case (Inr lines)
      have "\<exists>s'. outer_body parses options items ask s = Inr s'
              \<and> length (tested s') = length (tested s) + 1
              \<and> right s' - left s' + 1 < 2 ^ n"
      proof (cases "ask (length (tested s)) ?mid")
        case PASS
        have "right s - (?mid + 1) + 1 < (2::int) ^ n" using sz by linarith
        then show ?thesis by (simp add: outer_body_PASS[where ask = ask, OF True Inr PASS])
      next
        case FAIL
        have "?mid - 1 - left s + 1 < (2::int) ^ n" using sz by linarith
        then show ?thesis by (simp add: outer_body_FAIL[where ask = ask, OF True Inr FAIL])
      next
        case IGNORE
        with Suc.prems(1) show ?thesis by simp
      qed
      then obtain s' where s': "outer_body parses options items ask s = Inr s'"
        "length (tested s') = length (tested s) + 1" "right s' - left s' + 1 < 2 ^ n"
        by blast
      have se: "search parses options items ask s = search parses options items ask s'"
        using True s'(1) by (simp add: search.simps[of _ _ _ _ s])
      from Suc.IH[OF Suc.prems(1) s'(3)] s'(2) show ?thesis unfolding se by simp
    qed
  qed
qed

lemma clean_inv_search:
  "\<forall>k i. ask k i \<noteq> IGNORE \<Longrightarrow> clean_inv s \<Longrightarrow>
   search parses options items ask s = Inr f \<Longrightarrow> clean_inv f"
proof (induction parses options items ask s rule: search.induct)
  case (1 parses options items ask s)
  show ?case
  proof (cases "left s \<le> right s")
    case False
    with "1.prems" show ?thesis by (simp add: search.simps[of _ _ _ _ s])
  next
    case True
    let ?mid = "(left s + right s) div 2"
    note mb = mid_bounds[OF True]
    from "1.prems"(3) True obtain s' where s': "outer_body parses options items ask s = Inr s'"
      and f: "search parses options items ask s' = Inr f"
      by (auto simp add: search.simps[of _ _ _ _ s] split: sum.splits)
    have "clean_inv s'"
    proof (cases "run_commands parses options (item_at items ?mid) (executed s)")
      case (Inl x)
      obtain e lines where x: "x = (e, lines)" by (cases x)
      from outer_body_throws[where ask = ask, OF True Inl[unfolded x]] s'
      show ?thesis by simp
    next
      case (Inr lines)
      show ?thesis
      proof (cases "ask (length (tested s)) ?mid")
        case PASS
        from outer_body_PASS[where ask = ask, OF True Inr PASS] s' "1.prems"(2) mb
        show ?thesis by (auto simp add: clean_inv_def)
      next
        case FAIL
        from outer_body_FAIL[where ask = ask, OF True Inr FAIL] s' "1.prems"(2) mb
        show ?thesis by (auto simp add: clean_inv_def)
      next
        case IGNORE
        with "1.prems"(1) show ?thesis by simp
      qed
    qed
    from "1.IH"[OF True s' "1.prems"(1) this f] show ?thesis .
  qed
qed

text \<open>
  C3. For at least one item and answers that follow a single transition from good to
  bad (\<open>PASS\<close> below an index \<open>b\<close>, \<open>FAIL\<close> from \<open>b\<close> on, never \<open>IGNORE\<close>): the run asks at most
  \<open>\<lceil>log\<^sub>2 N\<rceil> + 1\<close> times, whether it is completed or ended by an exception, and when
  both \<open>lastGoodIndex\<close> and \<open>firstBadIndex\<close> are set at the end of the loop,
  \<open>lastGoodIndex + 1 = firstBadIndex\<close>.
\<close>

theorem C3_clean_bisection:
  assumes "items \<noteq> []" and "\<forall>k i. ask k i = (if i < b then PASS else FAIL)"
  shows "int (length (tested (state_of (search parses options items ask (initial items)))))
           \<le> \<lceil>log 2 (real (length items))\<rceil> + 1
       \<and> (search parses options items ask (initial items) = Inr f
            \<and> 0 \<le> lastGoodIndex f \<and> 0 \<le> firstBadIndex f \<longrightarrow>
          lastGoodIndex f + 1 = firstBadIndex f)"
proof -
  let ?f = "state_of (search parses options items ask (initial items))"
  let ?N = "length items"
  from assms(2) have clean: "\<forall>k i. ask k i \<noteq> IGNORE" by simp
  from assms(1) have pos: "0 < ?N" by simp
  from floorlog_bounds[OF pos, of 2] have "?N < 2 ^ floorlog 2 ?N" by simp
  then have "int ?N < 2 ^ floorlog 2 ?N" by (metis of_nat_less_iff of_nat_numeral of_nat_power)
  then have "right (initial items) - left (initial items) + 1 < 2 ^ floorlog 2 ?N"
    by (simp add: initial_def)
  from clean_tests_bound[OF clean this, of parses options items]
  have "length (tested ?f) \<le> floorlog 2 ?N" by (simp add: initial_def)
  also have "floorlog 2 ?N = nat \<lfloor>log 2 (real ?N)\<rfloor> + 1" using pos by (simp add: floorlog_def)
  finally have "length (tested ?f) \<le> nat \<lfloor>log 2 (real ?N)\<rfloor> + 1" .
  then have le: "int (length (tested ?f)) \<le> int (nat \<lfloor>log 2 (real ?N)\<rfloor>) + 1" by linarith
  from pos have r1: "1 \<le> real ?N" and r0: "0 < real ?N" by linarith+
  have "(1::real) < 2 \<Longrightarrow> 0 \<le> log 2 (real ?N)"
    by (rule iffD2[OF zero_le_log_cancel_iff[OF _ r0] r1])
  then have "0 \<le> log 2 (real ?N)" by simp
  then have "int (nat \<lfloor>log 2 (real ?N)\<rfloor>) = \<lfloor>log 2 (real ?N)\<rfloor>" by simp
  moreover have "\<lfloor>log 2 (real ?N)\<rfloor> \<le> \<lceil>log 2 (real ?N)\<rceil>" by (rule floor_le_ceiling)
  ultimately have count: "int (length (tested ?f)) \<le> \<lceil>log 2 (real ?N)\<rceil> + 1" using le by linarith
  have gap: "lastGoodIndex f + 1 = firstBadIndex f"
    if "search parses options items ask (initial items) = Inr f" and "0 \<le> firstBadIndex f"
  proof -
    have "clean_inv (initial items)" by (simp add: clean_inv_def initial_def)
    from clean_inv_search[OF clean this that(1)] have ci: "clean_inv f" .
    from search_done[OF that(1)] have "right f < left f" .
    with ci that(2) show ?thesis unfolding clean_inv_def by auto
  qed
  from count gap show ?thesis by blast
qed

text \<open>Eight items, the first five good: three tests, at the indices 3, 5 and 4.\<close>

theorem C3_witness:
  "[''a'', ''b'', ''c'', ''d'', ''e'', ''f'', ''g'', ''h''] \<noteq> []
   \<and> search (\<lambda>l. True) \<lparr>testCommand = ''t'', itemsFile = ''f'', nextStateCommand = None\<rparr>
        [''a'', ''b'', ''c'', ''d'', ''e'', ''f'', ''g'', ''h''] (\<lambda>k i. if i < 5 then PASS else FAIL) (initial [''a'', ''b'', ''c'', ''d'', ''e'', ''f'', ''g'', ''h''])
       = Inr \<lparr>left = 5, right = 4, lastGoodIndex = 4, firstBadIndex = 5,
          ignoredItems = [], tested = [3, 5, 4], executed = [''t'', ''t'', ''t'']\<rparr>
   \<and> int (length (tested (state_of (search (\<lambda>l. True) \<lparr>testCommand = ''t'', itemsFile = ''f'', nextStateCommand = None\<rparr>
        [''a'', ''b'', ''c'', ''d'', ''e'', ''f'', ''g'', ''h''] (\<lambda>k i. if i < 5 then PASS else FAIL) (initial [''a'', ''b'', ''c'', ''d'', ''e'', ''f'', ''g'', ''h''])))))
       \<le> \<lceil>log 2 (real (length [''a'', ''b'', ''c'', ''d'', ''e'', ''f'', ''g'', ''h'']))\<rceil> + 1
   \<and> 0 \<le> lastGoodIndex \<lparr>left = 5, right = 4, lastGoodIndex = 4, firstBadIndex = 5,
          ignoredItems = [], tested = [3, 5, 4], executed = [''t'', ''t'', ''t'']\<rparr>
   \<and> 0 \<le> firstBadIndex \<lparr>left = 5, right = 4, lastGoodIndex = 4, firstBadIndex = 5,
          ignoredItems = [], tested = [3, 5, 4], executed = [''t'', ''t'', ''t'']\<rparr>
   \<and> lastGoodIndex \<lparr>left = 5, right = 4, lastGoodIndex = 4, firstBadIndex = 5,
          ignoredItems = [], tested = [3, 5, 4], executed = [''t'', ''t'', ''t'']\<rparr> + 1
       = firstBadIndex \<lparr>left = 5, right = 4, lastGoodIndex = 4, firstBadIndex = 5,
          ignoredItems = [], tested = [3, 5, 4], executed = [''t'', ''t'', ''t'']\<rparr>"
proof -
  have h1: "[''a'', ''b'', ''c'', ''d'', ''e'', ''f'', ''g'', ''h''] \<noteq> []" by simp
  have h2: "\<forall>k i. (\<lambda>k i. if i < 5 then PASS else FAIL) k i = (if i < 5 then PASS else FAIL)" by simp
  have e: "search (\<lambda>l. True) \<lparr>testCommand = ''t'', itemsFile = ''f'', nextStateCommand = None\<rparr>
        [''a'', ''b'', ''c'', ''d'', ''e'', ''f'', ''g'', ''h''] (\<lambda>k i. if i < 5 then PASS else FAIL) (initial [''a'', ''b'', ''c'', ''d'', ''e'', ''f'', ''g'', ''h''])
       = Inr \<lparr>left = 5, right = 4, lastGoodIndex = 4, firstBadIndex = 5,
          ignoredItems = [], tested = [3, 5, 4], executed = [''t'', ''t'', ''t'']\<rparr>"
    by code_simp
  have g: "0 \<le> lastGoodIndex \<lparr>left = 5, right = 4, lastGoodIndex = 4, firstBadIndex = 5,
          ignoredItems = [], tested = [3, 5, 4], executed = [''t'', ''t'', ''t'']\<rparr>"
    "0 \<le> firstBadIndex \<lparr>left = 5, right = 4, lastGoodIndex = 4, firstBadIndex = 5,
          ignoredItems = [], tested = [3, 5, 4], executed = [''t'', ''t'', ''t'']\<rparr>"
    by simp_all
  from C3_clean_bisection[OF h1 h2, of "\<lambda>l. True" "\<lparr>testCommand = ''t'', itemsFile = ''f'', nextStateCommand = None\<rparr>"
      "\<lparr>left = 5, right = 4, lastGoodIndex = 4, firstBadIndex = 5,
          ignoredItems = [], tested = [3, 5, 4], executed = [''t'', ''t'', ''t'']\<rparr>"] e g h1
  show ?thesis by blast
qed

section \<open>The two variants side by side\<close>


section \<open>C8: the ternary variant does what the binary one does\<close>



end
